theory Spec2Isabelle
  imports Complex_Main "HOL-Library.Log_Nat"
begin

section \<open>Lab exporter: network rate tracker, config synchronisation, report loop\<close>

text \<open>
  A shallow embedding of \<^verbatim>\<open>lab_exporter.py\<close>. A Python float is the real number
  that the double denotes, and each float operation of the rate computation rounds its
  exact result to the nearest double, ties to the even significand. \<^verbatim>\<open>round(x, 1)\<close>
  rounds the exact value of the double \<open>x\<close> to the nearest multiple of one tenth, ties
  to the even multiple; a reported Mbps figure is that decimal, the one the snapshot
  prints. Byte counters are Python's unbounded integers.
\<close>

subsection \<open>Data model\<close>

text \<open>One entry of \<^verbatim>\<open>psutil.net_io_counters(pernic=True)\<close>.\<close>

record snetio =
  bytes_sent :: int
  bytes_recv :: int

text \<open>One entry of \<^verbatim>\<open>psutil.net_if_addrs()[nic]\<close>.\<close>

datatype address_family = AF_INET | AF_INET6 | AF_PACKET

record snicaddr =
  family :: address_family
  address :: string

text \<open>The monitoring config pulled from the server; every key may be absent.\<close>

record monitor_config =
  reportIntervalSec :: "int option"
  gpuIndices :: "int list option"
  diskMounts :: "string list option"
  nicNames :: "string list option"

text \<open>A NIC entry of the snapshot and the network part of the snapshot.\<close>

record nic =
  name :: string
  ipv4 :: string
  rxMbps :: real
  txMbps :: real

record snapshot =
  nics :: "nic list"
  networkRxMbps :: real
  networkTxMbps :: real

text \<open>The previous counters kept per NIC, and the tracker object.\<close>

record prev_bytes =
  rx :: int
  tx :: int

record tracker =
  prev :: "string \<rightharpoonup> prev_bytes"
  prev_time :: real
  initialized :: bool

subsection \<open>Doubles\<close>

text \<open>Rounding to the nearest integer, ties to the even one.\<close>

definition round_half_even :: "real \<Rightarrow> int" where
  "round_half_even y =
     (let f = \<lfloor>y\<rfloor>; r = y - of_int f
      in if r < 1 / 2 then f
         else if 1 / 2 < r then f + 1
         else if even f then f else f + 1)"

text \<open>The exponent \<open>e\<close> of a real other than 0: \<open>2 powi e \<le> \<bar>x\<bar> < 2 powi (e + 1)\<close>.\<close>

definition binary_exponent :: "real \<Rightarrow> int" where
  "binary_exponent x =
     (if 1 \<le> \<bar>x\<bar> then bitlen \<lfloor>\<bar>x\<bar>\<rfloor> - 1 else - bitlen (\<lceil>1 / \<bar>x\<bar>\<rceil> - 1))"

text \<open>
  The double nearest to a real: a significand of 53 bits, ties to the even significand.
  The exponent range is not bounded; the rates of a NIC are far from the overflow and
  subnormal ranges of binary64.
\<close>

definition double_of :: "real \<Rightarrow> real" where
  "double_of x =
     (if x = 0 then 0
      else (let ulp = 2 powi (binary_exponent x - 52)
            in of_int (round_half_even (x / ulp)) * ulp))"

text \<open>
  The double that \<^verbatim>\<open>(delta * 8) / (dt * 1_000_000)\<close> evaluates to, for an integer
  \<^verbatim>\<open>delta\<close> and a float \<^verbatim>\<open>dt\<close>: the integer product is exact and is converted
  to a float for the division, the float product and the quotient are rounded.
\<close>

definition mbps :: "int \<Rightarrow> real \<Rightarrow> real" where
  "mbps delta dt = double_of (double_of (real_of_int (delta * 8)) / double_of (dt * 1000000))"

subsection \<open>Rounding to one decimal\<close>

definition round1 :: "real \<Rightarrow> real" where
  "round1 x =
     (let y = x * 10; f = \<lfloor>y\<rfloor>; r = y - of_int f
      in of_int (if r < 1 / 2 then f
                 else if 1 / 2 < r then f + 1
                 else if even f then f else f + 1) / 10)"

subsection \<open>Snapshot collection: the per-NIC part\<close>

text \<open>
  The first IPv4 address of an address list, or the empty string
  (the inner \<^verbatim>\<open>for addr in nic_addrs[nic_name]\<close> loop with its \<^verbatim>\<open>break\<close>).
\<close>

fun first_ipv4 :: "snicaddr list \<Rightarrow> string" where
  "first_ipv4 [] = []"
| "first_ipv4 (a # as) = (if family a = AF_INET then address a else first_ipv4 as)"

text \<open>
  The loop over \<^verbatim>\<open>net_counters.items()\<close> of \<^verbatim>\<open>collect_snapshot\<close>. The dict of
  counters is an association list in iteration order; \<^verbatim>\<open>nic_addrs\<close> is a map.
\<close>

fun collect_nics ::
  "string list option \<Rightarrow> (string \<rightharpoonup> snicaddr list) \<Rightarrow> (string \<times> snetio) list \<Rightarrow> nic list" where
  "collect_nics nic_names_cfg nic_addrs [] = []"
| "collect_nics nic_names_cfg nic_addrs ((nic_name, counters) # rest) =
     (if nic_name = ''lo'' then collect_nics nic_names_cfg nic_addrs rest
      else if nic_names_cfg \<noteq> None \<and> nic_name \<notin> set (the nic_names_cfg)
        then collect_nics nic_names_cfg nic_addrs rest
      else \<lparr>name = nic_name,
            ipv4 = (case nic_addrs nic_name of None \<Rightarrow> [] | Some as \<Rightarrow> first_ipv4 as),
            rxMbps = 0, txMbps = 0\<rparr>
           # collect_nics nic_names_cfg nic_addrs rest)"

definition collect_snapshot ::
  "monitor_config \<Rightarrow> (string \<rightharpoonup> snicaddr list) \<Rightarrow> (string \<times> snetio) list \<Rightarrow> snapshot" where
  "collect_snapshot config nic_addrs net_counters =
     \<lparr>nics = collect_nics (nicNames config) nic_addrs net_counters,
      networkRxMbps = 0, networkTxMbps = 0\<rparr>"

subsection \<open>The network rate tracker\<close>

definition NetworkRateTracker :: tracker where
  "NetworkRateTracker = \<lparr>prev = Map.empty, prev_time = 0, initialized = False\<rparr>"

text \<open>
  The body of the \<^verbatim>\<open>for nic in snapshot["nics"]\<close> loop of \<^verbatim>\<open>update\<close>. The loop
  state is the map of previous counters and the two running totals; the result
  is the list of NIC entries as the loop leaves them, with the final loop state.
\<close>

fun update_loop ::
  "(string \<rightharpoonup> snetio) \<Rightarrow> real \<Rightarrow> (string \<rightharpoonup> prev_bytes) \<Rightarrow> real \<Rightarrow> real \<Rightarrow> nic list
     \<Rightarrow> nic list \<times> (string \<rightharpoonup> prev_bytes) \<times> real \<times> real" where
  "update_loop net_counters dt pv total_rx total_tx [] = ([], pv, total_rx, total_tx)"
| "update_loop net_counters dt pv total_rx total_tx (n # ns) =
     (case net_counters (name n) of
        None \<Rightarrow>
          (case update_loop net_counters dt pv total_rx total_tx ns of
             (ns', st) \<Rightarrow> (n # ns', st))
      | Some counters \<Rightarrow>
          (let cur_rx = bytes_recv counters;
               cur_tx = bytes_sent counters;
               n' = (case (0 < dt, pv (name n)) of
                       (True, Some p) \<Rightarrow>
                         (let rx_mbps = mbps (cur_rx - rx p) dt;
                              tx_mbps = mbps (cur_tx - tx p) dt
                          in n\<lparr>rxMbps := round1 (max rx_mbps 0),
                                txMbps := round1 (max tx_mbps 0)\<rparr>)
                     | _ \<Rightarrow> n\<lparr>rxMbps := 0, txMbps := 0\<rparr>)
           in (case update_loop net_counters dt
                      (pv(name n \<mapsto> \<lparr>rx = cur_rx, tx = cur_tx\<rparr>))
                      (total_rx + rxMbps n') (total_tx + txMbps n') ns of
                 (ns', st) \<Rightarrow> (n' # ns', st))))"

text \<open>
  \<^verbatim>\<open>NetworkRateTracker.update\<close>: the tracker and the snapshot are mutated in
  place by the source and returned here. The counters read from psutil and the
  value of \<^verbatim>\<open>time.time()\<close> are inputs; \<^verbatim>\<open>now - self._prev_time\<close> is a float
  subtraction. The config argument is read but not used.
\<close>

definition update ::
  "tracker \<Rightarrow> snapshot \<Rightarrow> monitor_config \<Rightarrow> (string \<rightharpoonup> snetio) \<Rightarrow> real \<Rightarrow> tracker \<times> snapshot" where
  "update self snap config net_counters now =
     (let elapsed = double_of (now - prev_time self);
          dt = (if initialized self \<and> 0 < elapsed then elapsed else 0)
      in (case update_loop net_counters dt (prev self) 0 0 (nics snap) of
            (ns', pv', total_rx, total_tx) \<Rightarrow>
              (\<lparr>prev = pv', prev_time = now, initialized = True\<rparr>,
               snap\<lparr>nics := ns',
                    networkRxMbps := round1 total_rx,
                    networkTxMbps := round1 total_tx\<rparr>)))"

subsection \<open>The environment of the main loop\<close>

text \<open>
  The HTTP transport is scripted: the replies to the successive GETs of
  \<^verbatim>\<open>/api/monitoring/config\<close> and to the successive POSTs of
  \<^verbatim>\<open>/api/monitoring/report\<close> are two lists, each reply with the time the call
  takes. A reply is a response with its status code and decoded body, or the
  \<^verbatim>\<open>requests.RequestException\<close> that the call raises. The body of a config
  response is the config; the body of a report response is its \<^verbatim>\<open>configVersion\<close>,
  if it has one.
\<close>

datatype 'a response = Response (status_code: int) (json: 'a) | RequestException

type_synonym 'a replies = "(real \<times> 'a response) list"

text \<open>
  What a run does, in order: the requests with the time they start at, the sleeps
  with the time they start at and their length, and the warning of the initial fetch
  with its retry count.
\<close>

datatype event =
    Config_request real
  | Report_request real
  | Refresh_request real
  | Sleep real real
  | Still_waiting nat

text \<open>
  How a run ends: \<^verbatim>\<open>sys.exit\<close> with its status; \<^verbatim>\<open>main\<close> returning, which is
  exit status 0; the ValueError of \<^verbatim>\<open>time.sleep\<close>, which nothing catches; or, for a
  run that outlasts the scripted replies, the point where it is about to send a request
  that has no reply.
\<close>

datatype outcome =
    Exited int
  | Returned
  | Raised_ValueError
  | Waiting

text \<open>
  The global \<^verbatim>\<open>running\<close>. The handler of SIGINT and SIGTERM only clears the
  flag; it raises nothing, so a call in progress (a request, \<^verbatim>\<open>time.sleep\<close>) goes on
  to its end after the handler has run. The time the signal is delivered at, if it
  is, is an input; the flag read at time \<open>clk\<close> is then:
\<close>

definition running :: "real option \<Rightarrow> real \<Rightarrow> bool" where
  "running signal_at clk = (case signal_at of None \<Rightarrow> True | Some t \<Rightarrow> clk < t)"

definition DEFAULT_REPORT_INTERVAL :: int where
  "DEFAULT_REPORT_INTERVAL = 5"

text \<open>\<^verbatim>\<open>monitor_config.get("reportIntervalSec", DEFAULT_REPORT_INTERVAL)\<close>\<close>

definition get_reportIntervalSec :: "monitor_config \<Rightarrow> int" where
  "get_reportIntervalSec c =
     (case reportIntervalSec c of Some i \<Rightarrow> i | None \<Rightarrow> DEFAULT_REPORT_INTERVAL)"

text \<open>\<^verbatim>\<open>data.get("configVersion", 0)\<close> on the body of a report response.\<close>

definition get_configVersion :: "int option \<Rightarrow> int" where
  "get_configVersion data = (case data of Some v \<Rightarrow> v | None \<Rightarrow> 0)"

text \<open>The empty dict that \<^verbatim>\<open>monitor_config\<close> starts as.\<close>

definition empty_config :: monitor_config where
  "empty_config = \<lparr>reportIntervalSec = None, gpuIndices = None, diskMounts = None, nicNames = None\<rparr>"

subsection \<open>Step 3 of main: the initial config fetch\<close>

datatype fetch_result =
    Fetched monitor_config
  | Fetch_exit int
  | Fetch_stopped
  | Fetch_waiting

text \<open>
  The \<^verbatim>\<open>while running\<close> loop of step 3, from the clock, the retry count and the
  events so far. \<open>Fetched\<close> is the \<^verbatim>\<open>break\<close>, \<open>Fetch_exit\<close> is \<^verbatim>\<open>sys.exit\<close>,
  \<open>Fetch_stopped\<close> is the loop condition found false, and \<open>Fetch_waiting\<close> is a
  loop that is about to send a request for which the script has no reply.
\<close>

fun config_fetch_loop ::
  "real option \<Rightarrow> real \<Rightarrow> nat \<Rightarrow> event list \<Rightarrow> monitor_config replies
     \<Rightarrow> fetch_result \<times> real \<times> nat \<times> event list \<times> monitor_config replies" where
  "config_fetch_loop signal_at clk retry_count tr [] =
     (if running signal_at clk then (Fetch_waiting, clk, retry_count, tr, [])
      else (Fetch_stopped, clk, retry_count, tr, []))"
| "config_fetch_loop signal_at clk retry_count tr ((d, resp) # gets) =
     (if \<not> running signal_at clk then (Fetch_stopped, clk, retry_count, tr, (d, resp) # gets)
      else
        (case resp of
           Response code body \<Rightarrow>
             if code = 200 then
               (Fetched body, clk + d, retry_count, tr @ [Config_request clk], gets)
             else if code = 401 then
               (Fetch_exit 1, clk + d, retry_count, tr @ [Config_request clk], gets)
             else
               config_fetch_loop signal_at (clk + d + 5) (retry_count + 1)
                 (tr @ [Config_request clk]
                     @ (if retry_count + 1 > 60 then [Still_waiting (retry_count + 1)] else [])
                     @ [Sleep (clk + d) 5])
                 gets
         | RequestException \<Rightarrow>
               config_fetch_loop signal_at (clk + d + 5) (retry_count + 1)
                 (tr @ [Config_request clk]
                     @ (if retry_count + 1 > 60 then [Still_waiting (retry_count + 1)] else [])
                     @ [Sleep (clk + d) 5])
                 gets))"

subsection \<open>Step 4 of main: the report loop\<close>

text \<open>The variables of the report loop, with the clock and the events so far.\<close>

record agent =
  monitor_config :: monitor_config
  interval :: int
  known_config_version :: int
  clock :: real
  trace :: "event list"

text \<open>
  The handling of the report response (the \<^verbatim>\<open>try\<close> block of the loop body after the
  POST): either \<^verbatim>\<open>sys.exit\<close>, or the new \<^verbatim>\<open>known_config_version\<close> and
  \<^verbatim>\<open>need_config_refresh\<close>.
\<close>

datatype report_result = Report_exit int | Report_done int bool

definition handle_report :: "int \<Rightarrow> int option response \<Rightarrow> report_result" where
  "handle_report known resp =
     (case resp of
        Response code data \<Rightarrow>
          if code = 200 then
            (let server_version = get_configVersion data
             in if known < 0 then Report_done server_version False
                else if server_version \<noteq> known then Report_done server_version True
                else Report_done known False)
          else if code = 401 then Report_exit 1
          else Report_done known False
      | RequestException \<Rightarrow> Report_done known False)"

text \<open>
  The handling of the response to the refresh GET: the new \<^verbatim>\<open>monitor_config\<close> and
  \<^verbatim>\<open>interval\<close>. The first argument is \<^verbatim>\<open>args.interval\<close>.
\<close>

definition refresh_config ::
  "int option \<Rightarrow> monitor_config \<Rightarrow> int \<Rightarrow> monitor_config response \<Rightarrow> monitor_config \<times> int" where
  "refresh_config args_interval cfg intv resp =
     (case resp of
        Response code new_config \<Rightarrow>
          if code = 200 then
            (if new_config \<noteq> cfg then
               (let new_interval = get_reportIntervalSec new_config
                in if args_interval = None \<and> new_interval \<noteq> intv
                   then (new_config, new_interval) else (new_config, intv))
             else (cfg, intv))
          else (cfg, intv)
      | RequestException \<Rightarrow> (cfg, intv))"

text \<open>
  One pass through the body of the report loop, up to the sleep: the report, then
  the refresh when the report asked for one. The result is the outcome of a run that
  ends here, or the agent and the config replies left before the sleep. Collecting
  the snapshot and updating the tracker have no part in the control flow and are
  left out.
\<close>

definition tick ::
  "int option \<Rightarrow> agent \<Rightarrow> monitor_config replies \<Rightarrow> real \<times> int option response
     \<Rightarrow> (outcome \<times> agent) + (agent \<times> monitor_config replies)" where
  "tick args_interval st gets post =
     (let st1 = st\<lparr>clock := clock st + fst post,
                   trace := trace st @ [Report_request (clock st)]\<rparr>
      in case handle_report (known_config_version st) (snd post) of
           Report_exit c \<Rightarrow> Inl (Exited c, st1)
         | Report_done known need_config_refresh \<Rightarrow>
             (let st2 = st1\<lparr>known_config_version := known\<rparr>
              in if need_config_refresh then
                   (case gets of
                      [] \<Rightarrow> Inl (Waiting, st2)
                    | (d, resp) # gets' \<Rightarrow>
                        (case refresh_config args_interval (monitor_config st2) (interval st2) resp of
                           (cfg, intv) \<Rightarrow>
                             Inr (st2\<lparr>monitor_config := cfg, interval := intv,
                                      clock := clock st2 + d,
                                      trace := trace st2 @ [Refresh_request (clock st2)]\<rparr>,
                                  gets')))
                 else Inr (st2, gets)))"

text \<open>
  The \<^verbatim>\<open>while running\<close> loop of step 4. \<^verbatim>\<open>time.sleep\<close> raises ValueError on a
  negative length. \<open>Waiting\<close> is a loop that is about to send a request for which
  the script has no reply.
\<close>

fun report_loop ::
  "real option \<Rightarrow> int option \<Rightarrow> agent \<Rightarrow> monitor_config replies \<Rightarrow> int option replies
     \<Rightarrow> outcome \<times> agent" where
  "report_loop signal_at args_interval st gets [] =
     (if running signal_at (clock st) then (Waiting, st) else (Returned, st))"
| "report_loop signal_at args_interval st gets (post # posts) =
     (if \<not> running signal_at (clock st) then (Returned, st)
      else
        (case tick args_interval st gets post of
           Inl stop \<Rightarrow> stop
         | Inr (st', gets') \<Rightarrow>
             if interval st' < 0 then (Raised_ValueError, st')
             else report_loop signal_at args_interval
                    (st'\<lparr>clock := clock st' + real_of_int (interval st'),
                         trace := trace st' @ [Sleep (clock st') (real_of_int (interval st'))]\<rparr>)
                    gets' posts))"

text \<open>
  Steps 3 and 4 of \<^verbatim>\<open>main\<close>, from the time \<open>t0\<close> at which step 3 starts: the
  outcome, the time the run stops at, and its events. Argument parsing, hardware
  discovery and registration (steps 1 and 2) come before and are left out, as is the
  priming of the tracker between the two loops, which sends nothing.
\<close>

definition main ::
  "real option \<Rightarrow> int option \<Rightarrow> real \<Rightarrow> monitor_config replies \<Rightarrow> int option replies
     \<Rightarrow> outcome \<times> real \<times> event list" where
  "main signal_at args_interval t0 gets posts =
     (case config_fetch_loop signal_at t0 0 [] gets of
        (Fetch_exit c, clk, retry_count, tr, gets') \<Rightarrow> (Exited c, clk, tr)
      | (Fetch_waiting, clk, retry_count, tr, gets') \<Rightarrow> (Waiting, clk, tr)
      | (Fetch_stopped, clk, retry_count, tr, gets') \<Rightarrow> (Returned, clk, tr)
      | (Fetched cfg, clk, retry_count, tr, gets') \<Rightarrow>
          if \<not> running signal_at clk then (Returned, clk, tr)
          else
            (case report_loop signal_at args_interval
                    \<lparr>monitor_config = cfg,
                     interval = (case args_interval of
                                   Some i \<Rightarrow> if i \<noteq> 0 then i else get_reportIntervalSec cfg
                                 | None \<Rightarrow> get_reportIntervalSec cfg),
                     known_config_version = - 1,
                     clock = clk, trace = tr\<rparr>
                    gets' posts of
               (out, st) \<Rightarrow> (out, clock st, trace st)))"

subsection \<open>Auxiliary notions for the tracker proofs\<close>

text \<open>A NIC entry whose two rates are the 0.0 that \<^verbatim>\<open>collect_snapshot\<close> writes.\<close>

definition placeholder :: "nic \<Rightarrow> bool" where
  "placeholder n \<longleftrightarrow> rxMbps n = 0 \<and> txMbps n = 0"


text \<open>The NIC entry as one iteration of the loop of \<^verbatim>\<open>update\<close> leaves it, for a NIC with counters.\<close>

definition rated :: "real \<Rightarrow> (string \<rightharpoonup> prev_bytes) \<Rightarrow> snetio \<Rightarrow> nic \<Rightarrow> nic" where
  "rated dt pv counters n =
     (case (0 < dt, pv (name n)) of
        (True, Some p) \<Rightarrow>
          (let rx_mbps = mbps (bytes_recv counters - rx p) dt;
               tx_mbps = mbps (bytes_sent counters - tx p) dt
           in n\<lparr>rxMbps := round1 (max rx_mbps 0),
                 txMbps := round1 (max tx_mbps 0)\<rparr>)
      | _ \<Rightarrow> n\<lparr>rxMbps := 0, txMbps := 0\<rparr>)"

text \<open>
  The previous counters of a NIC, where recorded, are its current counters: the case of a
  name that the loop has already met in the same call.
\<close>

definition unchanged_since :: "(string \<rightharpoonup> snetio) \<Rightarrow> (string \<rightharpoonup> prev_bytes) \<Rightarrow> string \<Rightarrow> bool" where
  "unchanged_since nc pv nm \<longleftrightarrow>
     (case pv nm of None \<Rightarrow> True
      | Some p \<Rightarrow> (case nc nm of None \<Rightarrow> True
                   | Some c \<Rightarrow> rx p = bytes_recv c \<and> tx p = bytes_sent c))"

subsection \<open>A worked example: two ticks on a host with two NICs\<close>

definition eth_counters_t0 :: "(string \<times> snetio) list" where
  "eth_counters_t0 =
     [(''lo'', \<lparr>bytes_sent = 70, bytes_recv = 70\<rparr>),
      (''eth0'', \<lparr>bytes_sent = 500000, bytes_recv = 1000000\<rparr>),
      (''eth1'', \<lparr>bytes_sent = 0, bytes_recv = 0\<rparr>)]"


definition eth_addrs :: "string \<rightharpoonup> snicaddr list" where
  "eth_addrs = [''eth0'' \<mapsto> [\<lparr>family = AF_PACKET, address = ''aa:bb''\<rparr>,
                               \<lparr>family = AF_INET, address = ''10.0.0.7''\<rparr>]]"

definition all_nics_config :: monitor_config where
  "all_nics_config = \<lparr>reportIntervalSec = Some 10, gpuIndices = None, diskMounts = None, nicNames = None\<rparr>"

definition tie_counters :: "(string \<times> snetio) list" where
  "tie_counters = [(''eth0'', \<lparr>bytes_sent = 6250, bytes_recv = 43750\<rparr>)]"

definition zero_tracker :: tracker where
  "zero_tracker = \<lparr>prev = [''eth0'' \<mapsto> \<lparr>rx = 0, tx = 0\<rparr>], prev_time = 100, initialized = True\<rparr>"


subsection \<open>Auxiliary notions for the proofs about the initial fetch\<close>

text \<open>The replies after which the initial fetch retries: a transport failure, or a status other than 200 and 401.\<close>

definition retryable :: "'a response \<Rightarrow> bool" where
  "retryable resp =
     (case resp of Response code body \<Rightarrow> code \<noteq> 200 \<and> code \<noteq> 401 | RequestException \<Rightarrow> True)"

text \<open>The time that a list of retried attempts takes: each call and the sleep of 5 after it.\<close>

definition total_wait :: "'a replies \<Rightarrow> real" where
  "total_wait gets = sum_list (map (\<lambda>(d, resp). d + 5) gets)"

text \<open>The events of a list of retried attempts that start at \<open>clk\<close> with the given retry count.\<close>

fun retry_events :: "real \<Rightarrow> nat \<Rightarrow> 'a replies \<Rightarrow> event list" where
  "retry_events clk retry_count [] = []"
| "retry_events clk retry_count ((d, resp) # gets) =
     [Config_request clk]
       @ (if retry_count + 1 > 60 then [Still_waiting (retry_count + 1)] else [])
       @ [Sleep (clk + d) 5]
       @ retry_events (clk + d + 5) (retry_count + 1) gets"

fun is_warning :: "event \<Rightarrow> bool" where
  "is_warning (Still_waiting n) = True"
| "is_warning e = False"

fun is_sleep :: "event \<Rightarrow> bool" where
  "is_sleep (Sleep t l) = True"
| "is_sleep e = False"

text \<open>An initial config request or a report request that starts before \<open>t\<close>; any other event.\<close>

fun started_before :: "real \<Rightarrow> event \<Rightarrow> bool" where
  "started_before t (Config_request t') = (t' < t)"
| "started_before t (Report_request t') = (t' < t)"
| "started_before t e = True"

text \<open>A config used in the examples.\<close>

definition busy_config :: monitor_config where
  "busy_config = \<lparr>reportIntervalSec = Some 10, gpuIndices = None, diskMounts = None, nicNames = Some [''eth0'']\<rparr>"

subsection \<open>Auxiliary notions for the proofs about the report loop\<close>

text \<open>The refresh requests among the events.\<close>

fun is_refresh :: "event \<Rightarrow> bool" where
  "is_refresh (Refresh_request t) = True"
| "is_refresh e = False"

text \<open>
  The value of \<^verbatim>\<open>known_config_version\<close> that stands for the version recorded from
  the last successful report, with \<open>- 1\<close> when there has been none.
\<close>

definition sentinel :: "int option \<Rightarrow> int" where
  "sentinel recorded = (case recorded of None \<Rightarrow> - 1 | Some k \<Rightarrow> k)"

text \<open>Every successful report reply of the list carries the version \<open>v\<close>.\<close>

definition same_version :: "int \<Rightarrow> int option replies \<Rightarrow> bool" where
  "same_version v posts \<longleftrightarrow>
     (\<forall>(d, resp)\<in>set posts. \<forall>data. resp = Response 200 data \<longrightarrow> get_configVersion data = v)"

text \<open>The agent as a pass through the loop body leaves it, however the pass ends.\<close>

definition after_tick :: "(outcome \<times> agent) + (agent \<times> monitor_config replies) \<Rightarrow> agent" where
  "after_tick r = (case r of Inl (out, st) \<Rightarrow> st | Inr (st, gets) \<Rightarrow> st)"

text \<open>An agent as step 4 starts it, used in the examples.\<close>

definition fresh_agent :: agent where
  "fresh_agent = \<lparr>monitor_config = busy_config, interval = 10, known_config_version = - 1,
                   clock = 1, trace = [Config_request 0]\<rparr>"

subsection \<open>The local state file\<close>

text \<open>
  The state file holds the token and the server URL. A file is either empty, as
  \<^verbatim>\<open>open(path, "w")\<close> leaves it, or holds the complete JSON text of a state;
  \<^verbatim>\<open>json.load\<close> of the text that \<^verbatim>\<open>json.dump\<close> wrote gives the state back. The
  file system maps paths to file contents. Prefixes of a long text, which a reader could
  also meet, are not modelled.
\<close>

record local_config =
  token :: "string option"
  server :: "string option"

datatype file_content = Truncated | Json_document local_config

type_synonym file_system = "string \<rightharpoonup> file_content"

datatype py_error = JSONDecodeError

text \<open>\<^verbatim>\<open>load_local_config\<close>: the empty dict when the file does not exist; \<^verbatim>\<open>json.load\<close> raises on an empty file.\<close>

definition load_local_config :: "string \<Rightarrow> file_system \<Rightarrow> py_error + local_config" where
  "load_local_config path fs =
     (case fs path of
        None \<Rightarrow> Inr \<lparr>token = None, server = None\<rparr>
      | Some Truncated \<Rightarrow> Inl JSONDecodeError
      | Some (Json_document d) \<Rightarrow> Inr d)"

text \<open>
  \<^verbatim>\<open>save_local_config\<close> opens the target itself for writing, which creates or
  truncates it, and the text is in the file when the \<^verbatim>\<open>with\<close> block has closed it.
  These are the file systems that another process can observe, in order.
\<close>

definition save_local_config_states :: "string \<Rightarrow> local_config \<Rightarrow> file_system \<Rightarrow> file_system list" where
  "save_local_config_states path data fs =
     (let opened = fs(path \<mapsto> Truncated);
          closed = opened(path \<mapsto> Json_document data)
      in [opened, closed])"

text \<open>The file system when \<^verbatim>\<open>save_local_config\<close> has returned.\<close>

definition save_local_config :: "string \<Rightarrow> local_config \<Rightarrow> file_system \<Rightarrow> file_system" where
  "save_local_config path data fs = last (save_local_config_states path data fs)"

text \<open>A file system with the state of a registered node, used in the examples.\<close>

definition registered_files :: file_system where
  "registered_files = [''config.json'' \<mapsto> Json_document \<lparr>token = Some ''abc'', server = Some ''https://x''\<rparr>]"

section \<open>Properties of the network rate tracker\<close>

lemma round1_zero: "round1 0 = 0"
  by (simp add: round1_def)

lemma round1_nonneg: "0 \<le> x \<Longrightarrow> 0 \<le> round1 x"
  by (auto simp add: round1_def Let_def)



lemma round1_close: "\<bar>round1 x - x\<bar> \<le> 1 / 20"
proof -
  define f where "f = \<lfloor>x * 10\<rfloor>"
  have lo: "of_int f \<le> x * 10" and hi: "x * 10 < of_int f + 1"
    unfolding f_def by linarith+
  show ?thesis
    unfolding round1_def Let_def f_def[symmetric]
    using lo hi by (auto simp: abs_le_iff field_simps)
qed

lemma double_of_ties:
  "double_of (7 / 20) = 3152519739159347 / 9007199254740992"
  "double_of (1 / 20) = 3602879701896397 / 72057594037927936"
  by (simp_all add: double_of_def binary_exponent_def round_half_even_def Let_def compute_bitlen)

lemma round_half_even_close: "\<bar>of_int (round_half_even y) - y\<bar> \<le> 1 / 2"
  unfolding round_half_even_def Let_def by (auto simp: abs_le_iff)

lemma binary_exponent_bounds:
  assumes "x \<noteq> 0"
  shows "2 powi binary_exponent x \<le> \<bar>x\<bar> \<and> \<bar>x\<bar> < 2 powi (binary_exponent x + 1)"
proof (cases "1 \<le> \<bar>x\<bar>")
  case True
  define m where "m = \<lfloor>\<bar>x\<bar>\<rfloor>"
  have m: "0 < m" using True unfolding m_def by linarith
  have e: "binary_exponent x = bitlen m - 1"
    using True by (simp add: binary_exponent_def m_def)
  have k: "1 \<le> bitlen m" using m bitlen_eq_zero_iff[of m] bitlen_nonneg[of m] by linarith
  from bitlen_bounds[OF m] have lo: "2 ^ nat (bitlen m - 1) \<le> m" and hi: "m < 2 ^ nat (bitlen m)"
    by auto
  have "real_of_int (2 ^ nat (bitlen m - 1)) \<le> real_of_int m" using lo by linarith
  also have "\<dots> \<le> \<bar>x\<bar>" unfolding m_def by linarith
  finally have 1: "2 powi (bitlen m - 1) \<le> \<bar>x\<bar>"
    using k by (simp add: power_int_def)
  have "m + 1 \<le> 2 ^ nat (bitlen m)" using hi by linarith
  then have "real_of_int (m + 1) \<le> real_of_int (2 ^ nat (bitlen m))" by linarith
  moreover have "\<bar>x\<bar> < real_of_int (m + 1)" unfolding m_def by linarith
  ultimately have 2: "\<bar>x\<bar> < 2 powi (bitlen m - 1 + 1)"
    using k by (simp add: power_int_def)
  from 1 2 show ?thesis unfolding e by simp
next
  case False
  define y where "y = 1 / \<bar>x\<bar>"
  define m where "m = \<lceil>y\<rceil>"
  have x: "0 < \<bar>x\<bar>" "\<bar>x\<bar> < 1" using assms False by auto
  then have y: "1 < y" unfolding y_def by simp
  then have m: "0 < m - 1" unfolding m_def by linarith
  define k where "k = bitlen (m - 1)"
  have e: "binary_exponent x = - k"
    using False by (simp add: binary_exponent_def m_def y_def k_def)
  have k: "1 \<le> k" using m bitlen_eq_zero_iff[of "m - 1"] bitlen_nonneg[of "m - 1"] unfolding k_def by linarith
  from bitlen_bounds[OF m] have lo: "2 ^ nat (k - 1) \<le> m - 1" and hi: "m - 1 < 2 ^ nat k"
    unfolding k_def by auto
  have "m \<le> 2 ^ nat k" using hi by linarith
  then have "real_of_int m \<le> real_of_int (2 ^ nat k)" by linarith
  moreover have "y \<le> real_of_int m" unfolding m_def by linarith
  ultimately have "y \<le> real_of_int (2 ^ nat k)" by linarith
  then have "y \<le> 2 ^ nat k" by simp
  then have "1 / 2 ^ nat k \<le> 1 / y"
    using y by (intro divide_left_mono) auto
  then have 1: "2 powi (- k) \<le> \<bar>x\<bar>"
    using k x by (simp add: power_int_def y_def field_simps)
  have "real_of_int (2 ^ nat (k - 1)) \<le> real_of_int (m - 1)" using lo by linarith
  moreover have "real_of_int (m - 1) < y" unfolding m_def by linarith
  ultimately have "real_of_int (2 ^ nat (k - 1)) < y" by linarith
  then have "2 ^ nat (k - 1) < y" by simp
  then have "\<bar>x\<bar> * 2 ^ nat (k - 1) < 1"
    using x by (simp add: y_def field_simps)
  then have "\<bar>x\<bar> < 1 / 2 ^ nat (k - 1)"
    by (simp add: field_simps)
  moreover have "2 powi (- k + 1) = (1::real) / 2 ^ nat (k - 1)"
  proof (cases "k = 1")
    case True then show ?thesis by simp
  next
    case False
    with k have "- k + 1 < 0" by simp
    moreover have "nat (- (- k + 1)) = nat (k - 1)" by simp
    ultimately show ?thesis by (simp add: power_int_def field_simps)
  qed
  ultimately have 2: "\<bar>x\<bar> < 2 powi (- k + 1)" by simp
  from 1 2 show ?thesis unfolding e by simp
qed

lemma double_of_error: "\<bar>double_of x - x\<bar> \<le> \<bar>x\<bar> / 2 ^ 53"
proof (cases "x = 0")
  case True
  then show ?thesis by (simp add: double_of_def)
next
  case False
  define e where "e = binary_exponent x"
  define ulp :: real where "ulp = 2 powi (e - 52)"
  have ulp: "0 < ulp" unfolding ulp_def by simp
  have d: "double_of x = of_int (round_half_even (x / ulp)) * ulp"
    using False by (simp add: double_of_def Let_def ulp_def e_def)
  have "double_of x - x = (of_int (round_half_even (x / ulp)) - x / ulp) * ulp"
    using ulp unfolding d by (simp add: field_simps)
  then have "\<bar>double_of x - x\<bar> = \<bar>of_int (round_half_even (x / ulp)) - x / ulp\<bar> * ulp"
    using ulp by (simp add: abs_mult)
  also have "\<dots> \<le> 1 / 2 * ulp"
    using round_half_even_close[of "x / ulp"] ulp by (intro mult_right_mono) auto
  also have "ulp = (2::real) powi e / 2 ^ 52"
    unfolding ulp_def by (simp add: power_int_diff)
  also have "1 / 2 * ((2::real) powi e / 2 ^ 52) = 2 powi e / 2 ^ 53" by simp
  also have "\<dots> \<le> \<bar>x\<bar> / 2 ^ 53"
    using binary_exponent_bounds[OF False] unfolding e_def by (intro divide_right_mono) auto
  finally show ?thesis .
qed

lemma double_of_0: "double_of 0 = 0"
  by (simp add: double_of_def)

lemma double_of_half: "\<bar>double_of x - x\<bar> \<le> \<bar>x\<bar> / 2"
proof -
  have "\<bar>x\<bar> / 2 ^ 53 \<le> \<bar>x\<bar> / 2"
    by (intro divide_left_mono) auto
  with double_of_error[of x] show ?thesis by linarith
qed

lemma double_of_nonneg: "0 \<le> x \<Longrightarrow> 0 \<le> double_of x"
  using double_of_half[of x] by linarith

lemma double_of_nonpos: "x \<le> 0 \<Longrightarrow> double_of x \<le> 0"
  using double_of_half[of x] by linarith

lemma double_of_pos: "0 < x \<Longrightarrow> 0 < double_of x"
  using double_of_half[of x] by linarith

lemma mbps_zero: "mbps 0 dt = 0"
  by (simp add: mbps_def double_of_0)

lemma mbps_nonpos: "delta \<le> 0 \<Longrightarrow> 0 < dt \<Longrightarrow> mbps delta dt \<le> 0"
proof -
  assume d: "delta \<le> 0" and dt: "0 < dt"
  have "double_of (real_of_int (delta * 8)) \<le> 0"
    using d by (intro double_of_nonpos) simp
  moreover have "0 < double_of (dt * 1000000)"
    using dt by (intro double_of_pos) simp
  ultimately have "double_of (real_of_int (delta * 8)) / double_of (dt * 1000000) \<le> 0"
    by (simp add: divide_nonpos_pos)
  then show ?thesis unfolding mbps_def by (rule double_of_nonpos)
qed

lemma mbps_error:
  assumes dt: "0 < dt"
  shows "\<bar>mbps delta dt - real_of_int (delta * 8) / (dt * 1000000)\<bar>
           \<le> \<bar>real_of_int (delta * 8) / (dt * 1000000)\<bar> / 2 ^ 51"
proof -
  define u :: real where "u = 1 / 2 ^ 53"
  define N where "N = real_of_int (delta * 8)"
  define B where "B = dt * 1000000"
  define a where "a = double_of N"
  define b where "b = double_of B"
  define q where "q = double_of (a / b)"
  have u: "0 < u" "u \<le> 1 / 5" by (simp_all add: u_def)
  have B: "0 < B" using dt by (simp add: B_def)
  have ea: "\<bar>a - N\<bar> \<le> \<bar>N\<bar> * u"
    using double_of_error[of N] by (simp add: a_def u_def)
  have eb: "\<bar>b - B\<bar> \<le> B * u"
    using double_of_error[of B] B by (simp add: b_def u_def)
  have eq: "\<bar>q - a / b\<bar> \<le> \<bar>a / b\<bar> * u"
    using double_of_error[of "a / b"] by (simp add: q_def u_def)
  have b_lo: "B * (1 - u) \<le> b"
    using eb by (simp add: abs_le_iff algebra_simps)
  have Bu: "0 < B * (1 - u)" using B u by simp
  then have b: "0 < b" using b_lo by linarith
  have a_up: "\<bar>a\<bar> \<le> \<bar>N\<bar> * (1 + u)"
    using ea by (simp add: algebra_simps)
  have inv: "1 / b \<le> 1 / (B * (1 - u))"
    using b_lo Bu by (intro divide_left_mono) (auto intro: mult_pos_pos b)
  have ab: "\<bar>a / b\<bar> \<le> \<bar>N\<bar> * (1 + u) * (1 / (B * (1 - u)))"
  proof -
    have "\<bar>a / b\<bar> = \<bar>a\<bar> * (1 / b)" using b by simp
    also have "\<dots> \<le> \<bar>N\<bar> * (1 + u) * (1 / (B * (1 - u)))"
      using a_up inv b u by (intro mult_mono) auto
    finally show ?thesis .
  qed
  have diff: "a / b - N / B = ((a - N) * B - N * (b - B)) * (1 / b) / B"
    using b B by (simp add: field_simps)
  have num: "\<bar>(a - N) * B - N * (b - B)\<bar> \<le> 2 * u * \<bar>N\<bar> * B"
  proof -
    have "\<bar>(a - N) * B - N * (b - B)\<bar> \<le> \<bar>(a - N) * B\<bar> + \<bar>N * (b - B)\<bar>"
      by (rule abs_triangle_ineq4)
    also have "\<bar>(a - N) * B\<bar> = \<bar>a - N\<bar> * B" using B by (simp add: abs_mult)
    also have "\<bar>N * (b - B)\<bar> = \<bar>N\<bar> * \<bar>b - B\<bar>" by (simp add: abs_mult)
    also have "\<bar>a - N\<bar> * B + \<bar>N\<bar> * \<bar>b - B\<bar> \<le> \<bar>N\<bar> * u * B + \<bar>N\<bar> * (B * u)"
      using ea eb B by (intro add_mono mult_right_mono mult_left_mono) auto
    finally show ?thesis by (simp add: algebra_simps)
  qed
  have d2: "\<bar>a / b - N / B\<bar> \<le> 2 * u * \<bar>N\<bar> * (1 / (B * (1 - u)))"
  proof -
    have "\<bar>a / b - N / B\<bar> = \<bar>(a - N) * B - N * (b - B)\<bar> * (1 / b) / B"
      unfolding diff using b B by (simp add: abs_mult)
    also have "\<dots> \<le> 2 * u * \<bar>N\<bar> * B * (1 / (B * (1 - u))) / B"
      using num inv b B u by (intro divide_right_mono mult_mono) auto
    also have "\<dots> = 2 * u * \<bar>N\<bar> * (1 / (B * (1 - u)))"
      using B by simp
    finally show ?thesis .
  qed
  have "\<bar>q - N / B\<bar> \<le> \<bar>q - a / b\<bar> + \<bar>a / b - N / B\<bar>"
    by simp
  also have "\<dots> \<le> \<bar>N\<bar> * (1 + u) * (1 / (B * (1 - u))) * u + 2 * u * \<bar>N\<bar> * (1 / (B * (1 - u)))"
  proof (intro add_mono)
    have "\<bar>a / b\<bar> * u \<le> \<bar>N\<bar> * (1 + u) * (1 / (B * (1 - u))) * u"
      using ab u by (intro mult_right_mono) auto
    with eq show "\<bar>q - a / b\<bar> \<le> \<bar>N\<bar> * (1 + u) * (1 / (B * (1 - u))) * u"
      by (rule order_trans)
    show "\<bar>a / b - N / B\<bar> \<le> 2 * u * \<bar>N\<bar> * (1 / (B * (1 - u)))"
      by (rule d2)
  qed
  also have "\<dots> = \<bar>N\<bar> * (u * (1 + u) + 2 * u) * (1 / (B * (1 - u)))"
    by (simp only: algebra_simps)
  also have "\<dots> = (\<bar>N\<bar> / B) * ((u * (1 + u) + 2 * u) / (1 - u))"
    by simp
  also have "\<dots> \<le> (\<bar>N\<bar> / B) * (4 * u)"
  proof (intro mult_left_mono)
    have "u * (1 + u) + 2 * u \<le> 4 * u * (1 - u)"
      using u by (simp add: algebra_simps)
    then show "(u * (1 + u) + 2 * u) / (1 - u) \<le> 4 * u"
      using u by (simp add: field_simps)
    show "0 \<le> \<bar>N\<bar> / B" using B by simp
  qed
  also have "\<dots> = \<bar>N / B\<bar> / 2 ^ 51"
    using B by (simp add: u_def)
  finally show ?thesis
    by (simp add: mbps_def q_def a_def b_def N_def B_def)
qed





lemma update_loop_ConsE:
  assumes "update_loop nc dt pv trx ttx (n # ns) = (ns', st)"
  obtains (skip) ms where "nc (name n) = None"
      and "update_loop nc dt pv trx ttx ns = (ms, st)" and "ns' = n # ms"
    | (rate) c ms where "nc (name n) = Some c"
      and "update_loop nc dt (pv(name n \<mapsto> \<lparr>rx = bytes_recv c, tx = bytes_sent c\<rparr>))
             (trx + rxMbps (rated dt pv c n)) (ttx + txMbps (rated dt pv c n)) ns = (ms, st)"
      and "ns' = rated dt pv c n # ms"
proof (cases "nc (name n)")
  case None
  with assms skip show ?thesis
    by (auto split: prod.splits)
next
  case (Some c)
  with assms rate[of c] show ?thesis
    by (auto simp: Let_def rated_def split: prod.splits)
qed

lemma rated_name: "name (rated dt pv c n) = name n"
  by (simp add: rated_def Let_def split: option.splits bool.splits)



lemma update_loop_names:
  "update_loop nc dt pv trx ttx ns = (ns', st) \<Longrightarrow> map name ns' = map name ns"
proof (induction ns arbitrary: pv trx ttx ns')
  case Nil
  then show ?case by simp
next
  case (Cons n ns)
  from Cons.prems show ?case
    by (cases rule: update_loop_ConsE) (auto simp: rated_name dest: Cons.IH)
qed

lemma update_loop_totals:
  "update_loop nc dt pv trx ttx ns = (ns', pv', trx', ttx') \<Longrightarrow> \<forall>n\<in>set ns. placeholder n \<Longrightarrow>
     trx' = trx + sum_list (map rxMbps ns') \<and> ttx' = ttx + sum_list (map txMbps ns')"
proof (induction ns arbitrary: pv trx ttx ns')
  case Nil
  then show ?case by simp
next
  case (Cons n ns)
  from Cons.prems(1) show ?case
  proof (cases rule: update_loop_ConsE)
    case (skip ms)
    from Cons.IH[OF skip(2)] Cons.prems(2) skip(3) show ?thesis
      by (simp add: placeholder_def)
  next
    case (rate c ms)
    from Cons.IH[OF rate(2)] Cons.prems(2) rate(3) show ?thesis
      by simp
  qed
qed




lemma collect_nics_placeholder: "\<forall>n\<in>set (collect_nics cfg addrs cs). placeholder n"
  by (induction cfg addrs cs rule: collect_nics.induct) (auto simp: placeholder_def)

lemma rated_uncomputed:
  "nc (name n) = Some c \<Longrightarrow> dt \<le> 0 \<or> unchanged_since nc pv (name n) \<Longrightarrow> placeholder (rated dt pv c n)"
  by (auto simp: rated_def Let_def placeholder_def unchanged_since_def round1_zero mbps_zero
      split: option.splits bool.splits)

lemma update_loop_uncomputed:
  "update_loop nc dt pv trx ttx ns = (ns', st) \<Longrightarrow> \<forall>n\<in>set ns. placeholder n \<Longrightarrow>
     n' \<in> set ns' \<Longrightarrow> dt \<le> 0 \<or> nc (name n') = None \<or> unchanged_since nc pv (name n') \<Longrightarrow>
     placeholder n'"
proof (induction ns arbitrary: pv trx ttx ns')
  case Nil
  then show ?case by simp
next
  case (Cons n ns)
  from Cons.prems(1) show ?case
  proof (cases rule: update_loop_ConsE)
    case (skip ms)
    with Cons.IH[OF skip(2)] Cons.prems(2-) show ?thesis
      by auto
  next
    case (rate c ms)
    show ?thesis
    proof (cases "n' = rated dt pv c n")
      case True
      with rate(1) Cons.prems(4) show ?thesis
        by (auto simp: rated_name intro: rated_uncomputed)
    next
      case False
      with rate(3) Cons.prems(3) have in_ms: "n' \<in> set ms" by simp
      have tl: "\<forall>n\<in>set ns. placeholder n"
        using Cons.prems(2) by simp
      have "dt \<le> 0 \<or> nc (name n') = None \<or>
            unchanged_since nc (pv(name n \<mapsto> \<lparr>rx = bytes_recv c, tx = bytes_sent c\<rparr>)) (name n')"
        using Cons.prems(4) rate(1) by (auto simp: unchanged_since_def)
      then show ?thesis
        by (rule Cons.IH[OF rate(2) tl in_ms])
    qed
  qed
qed

lemma update_loop_prev:
  "update_loop nc dt pv trx ttx ns = (ns', pv', tot) \<Longrightarrow>
     pv' nm = (case nc nm of
                 Some c \<Rightarrow> if nm \<in> name ` set ns then Some \<lparr>rx = bytes_recv c, tx = bytes_sent c\<rparr> else pv nm
               | None \<Rightarrow> pv nm)"
proof (induction ns arbitrary: pv trx ttx ns')
  case Nil
  then show ?case by (simp split: option.splits)
next
  case (Cons n ns)
  from Cons.prems(1) show ?case
  proof (cases rule: update_loop_ConsE)
    case (skip ms)
    with Cons.IH[OF skip(2)] show ?thesis
      by (auto split: option.splits)
  next
    case (rate c ms)
    with Cons.IH[OF rate(2)] show ?thesis
      by (auto split: option.splits)
  qed
qed

lemma update_loop_rate:
  "update_loop nc dt pv trx ttx ns = (ns', st) \<Longrightarrow> distinct (map name ns) \<Longrightarrow> 0 < dt \<Longrightarrow>
     n' \<in> set ns' \<Longrightarrow> pv (name n') = Some p \<Longrightarrow> nc (name n') = Some c \<Longrightarrow>
     rxMbps n' = round1 (max (mbps (bytes_recv c - rx p) dt) 0) \<and>
     txMbps n' = round1 (max (mbps (bytes_sent c - tx p) dt) 0)"
proof (induction ns arbitrary: pv trx ttx ns')
  case Nil
  then show ?case by simp
next
  case (Cons n ns)
  from Cons.prems(1) show ?case
  proof (cases rule: update_loop_ConsE)
    case (skip ms)
    from skip(1) Cons.prems(6) have "n' \<noteq> n" by auto
    with skip(3) Cons.prems(4) have "n' \<in> set ms" by simp
    moreover have "distinct (map name ns)"
      using Cons.prems(2) by simp
    ultimately show ?thesis
      using Cons.IH[OF skip(2) _ Cons.prems(3) _ Cons.prems(5,6)] by blast
  next
    case (rate d ms)
    have names: "map name ms = map name ns"
      using rate(2) by (rule update_loop_names)
    show ?thesis
    proof (cases "name n' = name n")
      case True
      have "name n' \<notin> set (map name ms)"
        using Cons.prems(2) True names by simp
      then have "n' \<notin> set ms" by auto
      with rate(3) Cons.prems(4) have "n' = rated dt pv d n" by simp
      with True rate(1) Cons.prems(3,5,6) show ?thesis
        by (simp add: rated_def Let_def)
    next
      case False
      with rate(3) Cons.prems(4) have in_ms: "n' \<in> set ms"
        by (auto simp: rated_name)
      from False Cons.prems(5)
      have "(pv(name n \<mapsto> \<lparr>rx = bytes_recv d, tx = bytes_sent d\<rparr>)) (name n') = Some p"
        by simp
      moreover have "distinct (map name ns)"
        using Cons.prems(2) by simp
      ultimately show ?thesis
        using Cons.IH[OF rate(2) _ Cons.prems(3) in_ms _ Cons.prems(6)] by blast
    qed
  qed
qed

lemma collect_nics_distinct:
  "distinct (map fst cs) \<Longrightarrow> distinct (map name (collect_nics cfg addrs cs))"
proof (induction cfg addrs cs rule: collect_nics.induct)
  case (1 cfg addrs)
  show ?case by simp
next
  case (2 cfg addrs nm c rest)
  have sub: "set (map name (collect_nics cfg addrs rest)) \<subseteq> set (map fst rest)" for rest
    by (induction cfg addrs rest rule: collect_nics.induct) auto
  from 2 sub[of rest] show ?case
    by auto
qed


lemma collect_snapshot_eth0:
  "collect_snapshot all_nics_config eth_addrs eth_counters_t0 =
     \<lparr>nics = [\<lparr>name = ''eth0'', ipv4 = ''10.0.0.7'', rxMbps = 0, txMbps = 0\<rparr>,
              \<lparr>name = ''eth1'', ipv4 = [], rxMbps = 0, txMbps = 0\<rparr>],
      networkRxMbps = 0, networkTxMbps = 0\<rparr>"
  by (simp add: collect_snapshot_def all_nics_config_def eth_addrs_def eth_counters_t0_def)

lemma update_eth0:
  "snd (update NetworkRateTracker (collect_snapshot all_nics_config eth_addrs eth_counters_t0)
       all_nics_config (map_of eth_counters_t0) 100) =
      \<lparr>nics = [\<lparr>name = ''eth0'', ipv4 = ''10.0.0.7'', rxMbps = 0, txMbps = 0\<rparr>,
               \<lparr>name = ''eth1'', ipv4 = [], rxMbps = 0, txMbps = 0\<rparr>],
       networkRxMbps = 0, networkTxMbps = 0\<rparr>"
  unfolding collect_snapshot_eth0 update_def
  by (simp add: NetworkRateTracker_def eth_counters_t0_def Let_def round1_def)

lemma update_eth0_tracker:
  "prev_time (fst (update NetworkRateTracker (collect_snapshot all_nics_config eth_addrs eth_counters_t0)
       all_nics_config (map_of eth_counters_t0) 100)) = 100"
  "initialized (fst (update NetworkRateTracker (collect_snapshot all_nics_config eth_addrs eth_counters_t0)
       all_nics_config (map_of eth_counters_t0) 100))"
  "prev (fst (update NetworkRateTracker (collect_snapshot all_nics_config eth_addrs eth_counters_t0)
       all_nics_config (map_of eth_counters_t0) 100)) ''eth0'' = Some \<lparr>rx = 1000000, tx = 500000\<rparr>"
  unfolding collect_snapshot_eth0 update_def
  by (simp_all add: NetworkRateTracker_def eth_counters_t0_def Let_def round1_def)

lemma example_elapsed: "double_of 1 = 1" "double_of 2 = 2"
  by (simp_all add: double_of_def binary_exponent_def round_half_even_def Let_def compute_bitlen)

lemma example_rates:
  "round1 (max (mbps 2500000 2) 0) = 10"
  "round1 (max (mbps 1250000 2) 0) = 5"
  "round1 (max (mbps 30000 2) 0) = 1 / 10"
  "round1 (max (mbps 43750 1) 0) = 3 / 10"
  "round1 (max (mbps 6250 1) 0) = 1 / 10"
  by (simp_all add: round1_def mbps_def double_of_def binary_exponent_def round_half_even_def
      Let_def compute_bitlen)




lemma update_eq:
  assumes "update_loop nc
       (if initialized self \<and> 0 < double_of (now - prev_time self)
        then double_of (now - prev_time self) else 0)
       (prev self) 0 0 (nics snap) = (ns', pv', trx, ttx)"
  shows "update self snap config nc now =
       (\<lparr>prev = pv', prev_time = now, initialized = True\<rparr>,
        snap\<lparr>nics := ns', networkRxMbps := round1 trx, networkTxMbps := round1 ttx\<rparr>)"
  using assms by (simp add: update_def Let_def)

text \<open>
  Claim C1. On a primed tracker, when the time since the previous update is positive, a
  NIC of the snapshot that has a current counter and a recorded previous counter is
  reported with the double that \<open>(cur - prev) * 8 / (dt * 1000000)\<close> evaluates to,
  clamped at 0 and rounded to one decimal, where \<open>dt\<close> is the elapsed time as the float
  subtraction gives it. The reported rate is within 0.05, and the relative error
  \<open>1 / 2 ^ 51\<close> of the float operations, of \<open>max 0 ((cur - prev) * 8 / (dt * 1000000))\<close>;
  it is never negative, and it is 0 when the counter decreased. NIC names in a snapshot
  are distinct, being dict keys.
\<close>

theorem update_rate_formula:
  assumes "initialized self" and "0 < now - prev_time self"
    and "distinct (map name (nics snap))"
    and "n' \<in> set (nics (snd (update self snap config net_counters now)))"
    and "prev self (name n') = Some p"
    and "net_counters (name n') = Some c"
    and "dt = double_of (now - prev_time self)"
  shows
    "rxMbps n' = round1 (max 0 (mbps (bytes_recv c - rx p) dt)) \<and>
     txMbps n' = round1 (max 0 (mbps (bytes_sent c - tx p) dt)) \<and>
     \<bar>rxMbps n' - max 0 (real_of_int ((bytes_recv c - rx p) * 8) / (dt * 1000000))\<bar>
        \<le> 1 / 20 + \<bar>real_of_int ((bytes_recv c - rx p) * 8) / (dt * 1000000)\<bar> / 2 ^ 51 \<and>
     \<bar>txMbps n' - max 0 (real_of_int ((bytes_sent c - tx p) * 8) / (dt * 1000000))\<bar>
        \<le> 1 / 20 + \<bar>real_of_int ((bytes_sent c - tx p) * 8) / (dt * 1000000)\<bar> / 2 ^ 51 \<and>
     0 \<le> rxMbps n' \<and> 0 \<le> txMbps n' \<and>
     (bytes_recv c < rx p \<longrightarrow> rxMbps n' = 0) \<and>
     (bytes_sent c < tx p \<longrightarrow> txMbps n' = 0)"
proof -
  have dt: "0 < dt"
    unfolding assms(7) using assms(2) by (rule double_of_pos)
  define R where "R = mbps (bytes_recv c - rx p) dt"
  define T where "T = mbps (bytes_sent c - tx p) dt"
  define FR where "FR = real_of_int ((bytes_recv c - rx p) * 8) / (dt * 1000000)"
  define FT where "FT = real_of_int ((bytes_sent c - tx p) * 8) / (dt * 1000000)"
  obtain ns' pv' trx ttx where
    loop: "update_loop net_counters dt (prev self) 0 0 (nics snap) = (ns', pv', trx, ttx)"
    by (metis prod_cases4)
  have upd: "update self snap config net_counters now =
       (\<lparr>prev = pv', prev_time = now, initialized = True\<rparr>,
        snap\<lparr>nics := ns', networkRxMbps := round1 trx, networkTxMbps := round1 ttx\<rparr>)"
    by (rule update_eq) (use loop assms(1) dt in \<open>simp add: assms(7)\<close>)
  from assms(4) upd have mem: "n' \<in> set ns'" by simp
  from update_loop_rate[OF loop assms(3) dt mem assms(5,6)]
  have rx: "rxMbps n' = round1 (max 0 R)" and tx: "txMbps n' = round1 (max 0 T)"
    by (simp_all add: R_def T_def max.commute)
  have eR: "\<bar>R - FR\<bar> \<le> \<bar>FR\<bar> / 2 ^ 51" and eT: "\<bar>T - FT\<bar> \<le> \<bar>FT\<bar> / 2 ^ 51"
    unfolding R_def T_def FR_def FT_def using dt by (rule mbps_error)+
  have cR: "\<bar>round1 (max 0 R) - max 0 FR\<bar> \<le> 1 / 20 + \<bar>FR\<bar> / 2 ^ 51"
    using round1_close[of "max 0 R"] eR by linarith
  have cT: "\<bar>round1 (max 0 T) - max 0 FT\<bar> \<le> 1 / 20 + \<bar>FT\<bar> / 2 ^ 51"
    using round1_close[of "max 0 T"] eT by linarith
  have nR: "0 \<le> round1 (max 0 R)" and nT: "0 \<le> round1 (max 0 T)"
    by (simp_all add: round1_nonneg)
  have zR: "round1 (max 0 R) = 0" if "bytes_recv c < rx p"
  proof -
    from that have "R \<le> 0" unfolding R_def using dt by (intro mbps_nonpos) simp_all
    then show ?thesis by (simp add: max_def round1_zero)
  qed
  have zT: "round1 (max 0 T) = 0" if "bytes_sent c < tx p"
  proof -
    from that have "T \<le> 0" unfolding T_def using dt by (intro mbps_nonpos) simp_all
    then show ?thesis by (simp add: max_def round1_zero)
  qed
  show ?thesis
    unfolding rx tx R_def[symmetric] T_def[symmetric] FR_def[symmetric] FT_def[symmetric]
    using cR cT nR nT zR zT by blast
qed

theorem update_rate_formula_witness:
  "initialized zero_tracker \<and> 0 < 101 - prev_time zero_tracker \<and>
   distinct (map name (nics (collect_snapshot all_nics_config eth_addrs tie_counters))) \<and>
   \<lparr>name = ''eth0'', ipv4 = ''10.0.0.7'', rxMbps = 3 / 10, txMbps = 1 / 10\<rparr>
     \<in> set (nics (snd (update zero_tracker (collect_snapshot all_nics_config eth_addrs tie_counters)
                          all_nics_config (map_of tie_counters) 101))) \<and>
   prev zero_tracker ''eth0'' = Some \<lparr>rx = 0, tx = 0\<rparr> \<and>
   map_of tie_counters ''eth0'' = Some \<lparr>bytes_sent = 6250, bytes_recv = 43750\<rparr> \<and>
   (1::real) = double_of (101 - prev_time zero_tracker) \<and>
   (3 / 10 :: real) = round1 (max 0 (mbps (43750 - 0) 1)) \<and>
   (1 / 10 :: real) = round1 (max 0 (mbps (6250 - 0) 1))"
proof -
  let ?n = "\<lparr>name = ''eth0'', ipv4 = ''10.0.0.7'', rxMbps = 3 / 10, txMbps = 1 / 10\<rparr>"
  let ?p = "\<lparr>rx = 0, tx = 0\<rparr>"
  let ?c = "\<lparr>bytes_sent = 6250, bytes_recv = 43750\<rparr>"
  have snap: "collect_snapshot all_nics_config eth_addrs tie_counters =
     \<lparr>nics = [\<lparr>name = ''eth0'', ipv4 = ''10.0.0.7'', rxMbps = 0, txMbps = 0\<rparr>],
      networkRxMbps = 0, networkTxMbps = 0\<rparr>"
    by (simp add: collect_snapshot_def all_nics_config_def eth_addrs_def tie_counters_def)
  have h1: "initialized zero_tracker" and h2: "0 < 101 - prev_time zero_tracker"
    by (simp_all add: zero_tracker_def)
  have h3: "distinct (map name (nics (collect_snapshot all_nics_config eth_addrs tie_counters)))"
    by (simp add: snap)
  have h4: "?n \<in> set (nics (snd (update zero_tracker
       (collect_snapshot all_nics_config eth_addrs tie_counters)
       all_nics_config (map_of tie_counters) 101)))"
    unfolding snap update_def
    by (simp add: zero_tracker_def tie_counters_def Let_def example_elapsed example_rates)
  have h5: "prev zero_tracker (name ?n) = Some ?p"
    by (simp add: zero_tracker_def)
  have h6: "map_of tie_counters (name ?n) = Some ?c"
    by (simp add: tie_counters_def)
  have h7: "(1::real) = double_of (101 - prev_time zero_tracker)"
    by (simp add: zero_tracker_def example_elapsed)
  from update_rate_formula[OF h1 h2 h3 h4 h5 h6 h7] h1 h2 h3 h4 h5 h6 h7
  show ?thesis
    by (simp add: example_rates max.commute)
qed



text \<open>
  Claim C3. On a tracker that was never updated, or when the elapsed time is not
  positive, an update gives every NIC of the snapshot the rate 0 and both totals 0,
  whatever the counters are, and still records the timestamp and, for every NIC with
  counters, its current counters as the previous state.
\<close>

theorem first_update_all_zero:
  assumes "\<not> initialized self \<or> now - prev_time self \<le> 0"
    and "update self (collect_snapshot config nic_addrs cs) config net_counters now = (self', snap')"
  shows "(\<forall>n\<in>set (nics snap'). rxMbps n = 0 \<and> txMbps n = 0) \<and>
         networkRxMbps snap' = 0 \<and> networkTxMbps snap' = 0 \<and>
         map name (nics snap') = map name (nics (collect_snapshot config nic_addrs cs)) \<and>
         prev_time self' = now \<and> initialized self' \<and>
         (\<forall>n\<in>set (nics snap'). \<forall>c. net_counters (name n) = Some c \<longrightarrow>
            prev self' (name n) = Some \<lparr>rx = bytes_recv c, tx = bytes_sent c\<rparr>)"
proof -
  let ?dt = "if initialized self \<and> 0 < double_of (now - prev_time self)
             then double_of (now - prev_time self) else 0"
  let ?snap = "collect_snapshot config nic_addrs cs"
  have dt0: "?dt \<le> 0"
    using assms(1) double_of_nonpos[of "now - prev_time self"] by auto
  obtain ns' pv' trx ttx where
    loop: "update_loop net_counters ?dt (prev self) 0 0 (nics ?snap) = (ns', pv', trx, ttx)"
    by (metis prod_cases4)
  from update_eq[OF loop, of config] assms(2)
  have snap': "snap' = ?snap\<lparr>nics := ns', networkRxMbps := round1 trx, networkTxMbps := round1 ttx\<rparr>"
    and self': "self' = \<lparr>prev = pv', prev_time = now, initialized = True\<rparr>"
    by simp_all
  have ph: "\<forall>n\<in>set (nics ?snap). placeholder n"
    by (simp add: collect_snapshot_def collect_nics_placeholder)
  have zero: "\<forall>n\<in>set ns'. placeholder n"
    using update_loop_uncomputed[OF loop ph] dt0 by blast
  then have z: "map rxMbps ns' = map (\<lambda>_. 0) ns'" "map txMbps ns' = map (\<lambda>_. 0) ns'"
    by (simp_all add: placeholder_def)
  from update_loop_totals[OF loop ph]
  have tot: "trx = 0" "ttx = 0"
    unfolding z by simp_all
  have names: "map name ns' = map name (nics ?snap)"
    using loop by (rule update_loop_names)
  have rec: "pv' (name n) = Some \<lparr>rx = bytes_recv c, tx = bytes_sent c\<rparr>"
    if "n \<in> set ns'" "net_counters (name n) = Some c" for n c
  proof -
    from that(1) have "name n \<in> set (map name ns')" by simp
    then have "name n \<in> name ` set (nics ?snap)" unfolding names by simp
    with update_loop_prev[OF loop, of "name n"] that(2) show ?thesis by simp
  qed
  show ?thesis
    unfolding snap' self' using zero tot names rec by (simp add: round1_zero placeholder_def)
qed

theorem first_update_all_zero_witness:
  "\<not> initialized NetworkRateTracker \<and>
   (let r = update NetworkRateTracker (collect_snapshot all_nics_config eth_addrs eth_counters_t0)
              all_nics_config (map_of eth_counters_t0) 100
    in map rxMbps (nics (snd r)) = [0, 0] \<and> map txMbps (nics (snd r)) = [0, 0] \<and>
       map name (nics (snd r)) = [''eth0'', ''eth1''] \<and>
       networkRxMbps (snd r) = 0 \<and> networkTxMbps (snd r) = 0 \<and>
       prev_time (fst r) = 100 \<and> initialized (fst r) \<and>
       prev (fst r) ''eth0'' = Some \<lparr>rx = 1000000, tx = 500000\<rparr>)"
proof -
  define r where "r = update NetworkRateTracker
      (collect_snapshot all_nics_config eth_addrs eth_counters_t0)
      all_nics_config (map_of eth_counters_t0) 100"
  have h1: "\<not> initialized NetworkRateTracker"
    by (simp add: NetworkRateTracker_def)
  then have h: "\<not> initialized NetworkRateTracker \<or> 100 - prev_time NetworkRateTracker \<le> 0"
    by simp
  have c: "map_of eth_counters_t0 ''eth0'' = Some \<lparr>bytes_sent = 500000, bytes_recv = 1000000\<rparr>"
    by (simp add: eth_counters_t0_def)
  have s: "nics (snd r) = [\<lparr>name = ''eth0'', ipv4 = ''10.0.0.7'', rxMbps = 0, txMbps = 0\<rparr>,
                           \<lparr>name = ''eth1'', ipv4 = [], rxMbps = 0, txMbps = 0\<rparr>]"
    unfolding r_def by (simp add: update_eth0)
  have "r = (fst r, snd r)" by simp
  from first_update_all_zero[OF h this[unfolded r_def], folded r_def] c s h1
  show ?thesis
    unfolding r_def[symmetric] Let_def by simp
qed

section \<open>Properties of the initial config fetch\<close>

lemma running_mono: "running sg t \<Longrightarrow> t' \<le> t \<Longrightarrow> running sg t'"
  by (auto simp: running_def split: option.splits)

lemma total_wait_nonneg: "\<forall>(d, resp)\<in>set gets. 0 \<le> d \<Longrightarrow> 0 \<le> total_wait gets"
  by (induction gets) (auto simp: total_wait_def)

lemma total_wait_Cons: "total_wait ((d, resp) # gets) = d + 5 + total_wait gets"
  by (simp add: total_wait_def)

lemma total_wait_Nil: "total_wait [] = 0"
  by (simp add: total_wait_def)

lemma fetch_retry_prefix:
  assumes "\<forall>(d, resp)\<in>set pre. 0 \<le> d \<and> retryable resp"
    and "running sg (clk + total_wait pre)"
  shows "config_fetch_loop sg clk rc tr (pre @ gets) =
         config_fetch_loop sg (clk + total_wait pre) (rc + length pre) (tr @ retry_events clk rc pre) gets"
  using assms
proof (induction pre arbitrary: clk rc tr)
  case Nil
  then show ?case by (simp add: total_wait_Nil)
next
  case (Cons p pre)
  obtain d resp where p: "p = (d, resp)" by (cases p)
  from Cons.prems(1) p have d: "0 \<le> d" and r: "retryable resp"
    and rest: "\<forall>(d, resp)\<in>set pre. 0 \<le> d \<and> retryable resp"
    by auto
  have tw: "0 \<le> total_wait pre"
    using rest by (intro total_wait_nonneg) auto
  have run': "running sg (clk + d + 5 + total_wait pre)"
    using Cons.prems(2) p by (simp add: total_wait_Cons add.assoc)
  then have run: "running sg clk"
    using d tw by (elim running_mono) simp
  define tr1 where "tr1 = tr @ [Config_request clk]
       @ (if rc + 1 > 60 then [Still_waiting (rc + 1)] else []) @ [Sleep (clk + d) 5]"
  have step: "config_fetch_loop sg clk rc tr ((d, resp) # pre @ gets) =
      config_fetch_loop sg (clk + d + 5) (rc + 1) tr1 (pre @ gets)"
    using r run unfolding tr1_def by (cases resp) (simp_all add: retryable_def)
  have "config_fetch_loop sg (clk + d + 5) (rc + 1) tr1 (pre @ gets) =
      config_fetch_loop sg (clk + d + 5 + total_wait pre) (rc + 1 + length pre)
        (tr1 @ retry_events (clk + d + 5) (rc + 1) pre) gets"
    by (rule Cons.IH[OF rest run'])
  also have "clk + d + 5 + total_wait pre = clk + total_wait (p # pre)"
    by (simp add: p total_wait_Cons)
  also have "rc + 1 + length pre = rc + length (p # pre)"
    by simp
  also have "tr1 @ retry_events (clk + d + 5) (rc + 1) pre = tr @ retry_events clk rc (p # pre)"
    by (simp add: p tr1_def)
  finally show ?case
    using step by (simp add: p)
qed

lemma retry_events_sleeps:
  "e \<in> set (retry_events clk rc gets) \<Longrightarrow> is_sleep e \<Longrightarrow> \<exists>t. e = Sleep t 5"
  by (induction clk rc gets rule: retry_events.induct) (auto split: if_splits)

lemma retry_events_count:
  "length (filter is_sleep (retry_events clk rc gets)) = length gets"
  by (induction clk rc gets rule: retry_events.induct) auto

lemma fetch_loop_ends:
  "config_fetch_loop sg clk rc tr gets = (res, clk', rc', tr', rest) \<Longrightarrow>
     (case res of
        Fetched cfg \<Rightarrow> \<exists>d. (d, Response 200 cfg) \<in> set gets
      | Fetch_exit c \<Rightarrow> c = 1 \<and> (\<exists>d body. (d, Response 401 body) \<in> set gets)
      | Fetch_stopped \<Rightarrow> \<not> running sg clk'
      | Fetch_waiting \<Rightarrow> running sg clk' \<and> rest = [])"
proof (induction sg clk rc tr gets rule: config_fetch_loop.induct)
  case (1 sg clk rc tr)
  then show ?case by (auto split: if_splits)
next
  case (2 sg clk rc tr d resp gets)
  show ?case
  proof (cases "running sg clk")
    case False
    with "2.prems" show ?thesis by auto
  next
    case True
    show ?thesis
    proof (cases resp)
      case RequestException
      with True "2.prems" have "config_fetch_loop sg (clk + d + 5) (rc + 1)
                 (tr @ [Config_request clk]
                     @ (if rc + 1 > 60 then [Still_waiting (rc + 1)] else [])
                     @ [Sleep (clk + d) 5]) gets = (res, clk', rc', tr', rest)"
        by simp
      from "2.IH"(2)[OF _ RequestException this] True show ?thesis
        by (auto split: fetch_result.splits)
    next
      case (Response code body)
      show ?thesis
      proof (cases "code = 200 \<or> code = 401")
        case True
        with \<open>running sg clk\<close> Response "2.prems" show ?thesis
          by (fastforce split: if_splits)
      next
        case False
        with \<open>running sg clk\<close> Response "2.prems" have "config_fetch_loop sg (clk + d + 5) (rc + 1)
                 (tr @ [Config_request clk]
                     @ (if rc + 1 > 60 then [Still_waiting (rc + 1)] else [])
                     @ [Sleep (clk + d) 5]) gets = (res, clk', rc', tr', rest)"
          by simp
        from "2.IH"(1)[OF _ Response _ _ this] False \<open>running sg clk\<close> show ?thesis
          by (auto split: fetch_result.splits)
      qed
    qed
  qed
qed

lemma retry_events_warning_free:
  "filter (\<lambda>e. \<not> is_warning e) (retry_events clk rc gets) =
   filter (\<lambda>e. \<not> is_warning e) (retry_events clk rc' gets)"
  by (induction gets arbitrary: clk rc rc') auto

lemma fetch_loop_trace_before:
  "config_fetch_loop (Some t) clk rc tr gets = (res, clk', rc', tr', rest) \<Longrightarrow>
     \<forall>e\<in>set tr. started_before t e \<Longrightarrow> \<forall>e\<in>set tr'. started_before t e"
proof (induction "Some t" clk rc tr gets rule: config_fetch_loop.induct)
  case (1 clk rc tr)
  then show ?case by (auto split: if_splits)
next
  case (2 clk rc tr d resp gets)
  show ?case
  proof (cases "running (Some t) clk")
    case False
    with "2.prems" show ?thesis by auto
  next
    case True
    then have clk: "clk < t" by (simp add: running_def)
    show ?thesis
    proof (cases resp)
      case RequestException
      with True "2.prems" have "config_fetch_loop (Some t) (clk + d + 5) (rc + 1)
                 (tr @ [Config_request clk]
                     @ (if rc + 1 > 60 then [Still_waiting (rc + 1)] else [])
                     @ [Sleep (clk + d) 5]) gets = (res, clk', rc', tr', rest)"
        by simp
      moreover have "\<forall>e\<in>set (tr @ [Config_request clk]
                     @ (if rc + 1 > 60 then [Still_waiting (rc + 1)] else [])
                     @ [Sleep (clk + d) 5]). started_before t e"
        using clk "2.prems"(2) by auto
      ultimately show ?thesis
        using "2.hyps"(2)[OF _ RequestException] True by blast
    next
      case (Response code body)
      show ?thesis
      proof (cases "code = 200 \<or> code = 401")
        case True
        with \<open>running (Some t) clk\<close> Response "2.prems" clk show ?thesis
          by (auto split: if_splits)
      next
        case False
        with \<open>running (Some t) clk\<close> Response "2.prems" have "config_fetch_loop (Some t) (clk + d + 5) (rc + 1)
                 (tr @ [Config_request clk]
                     @ (if rc + 1 > 60 then [Still_waiting (rc + 1)] else [])
                     @ [Sleep (clk + d) 5]) gets = (res, clk', rc', tr', rest)"
          by simp
        moreover have "\<forall>e\<in>set (tr @ [Config_request clk]
                     @ (if rc + 1 > 60 then [Still_waiting (rc + 1)] else [])
                     @ [Sleep (clk + d) 5]). started_before t e"
          using clk "2.prems"(2) by auto
        ultimately show ?thesis
          using "2.hyps"(1)[OF _ Response] False \<open>running (Some t) clk\<close> by blast
      qed
    qed
  qed
qed

text \<open>
  Claim C7. While every reply is a transport failure or a status other than 200 and
  401, and no signal has been delivered, the initial fetch goes on: after any number of
  such replies it is about to send the next request, having slept exactly 5 after each
  attempt. The retry count only decides whether the warning is logged: without the
  warnings the events are those of a run that starts at count 0. And whenever the loop
  ends, it ends on a reply 200, on a reply 401 with exit status 1, or with the flag
  \<^verbatim>\<open>running\<close> found false.
\<close>

theorem initial_fetch_retries:
  assumes "\<forall>(d, resp)\<in>set gets. 0 \<le> d \<and> retryable resp"
    and "running sg (clk + total_wait gets)"
  shows "config_fetch_loop sg clk rc tr gets =
           (Fetch_waiting, clk + total_wait gets, rc + length gets, tr @ retry_events clk rc gets, []) \<and>
         (\<forall>e\<in>set (retry_events clk rc gets). is_sleep e \<longrightarrow> (\<exists>t. e = Sleep t 5)) \<and>
         length (filter is_sleep (retry_events clk rc gets)) = length gets \<and>
         filter (\<lambda>e. \<not> is_warning e) (retry_events clk rc gets) =
           filter (\<lambda>e. \<not> is_warning e) (retry_events clk 0 gets) \<and>
         (\<forall>gets' clk0 rc0 tr0 res clk' rc' tr' rest.
            config_fetch_loop sg clk0 rc0 tr0 gets' = (res, clk', rc', tr', rest) \<longrightarrow>
              (case res of
                 Fetched cfg \<Rightarrow> \<exists>d. (d, Response 200 cfg) \<in> set gets'
               | Fetch_exit c \<Rightarrow> c = 1 \<and> (\<exists>d body. (d, Response 401 body) \<in> set gets')
               | Fetch_stopped \<Rightarrow> \<not> running sg clk'
               | Fetch_waiting \<Rightarrow> running sg clk' \<and> rest = []))"
proof -
  have "config_fetch_loop sg clk rc tr (gets @ []) =
        config_fetch_loop sg (clk + total_wait gets) (rc + length gets) (tr @ retry_events clk rc gets) []"
    using assms by (rule fetch_retry_prefix)
  then have 1: "config_fetch_loop sg clk rc tr gets =
           (Fetch_waiting, clk + total_wait gets, rc + length gets, tr @ retry_events clk rc gets, [])"
    using assms(2) by simp
  have 2: "\<forall>e\<in>set (retry_events clk rc gets). is_sleep e \<longrightarrow> (\<exists>t. e = Sleep t 5)"
    using retry_events_sleeps by blast
  show ?thesis
    using 1 2 retry_events_count[of clk rc gets] retry_events_warning_free[of clk rc gets 0]
      fetch_loop_ends[of sg]
    by blast
qed

theorem initial_fetch_retries_witness:
  "0 \<le> (1::real) \<and> retryable (RequestException :: monitor_config response) \<and>
   0 \<le> (2::real) \<and> retryable (Response 503 empty_config) \<and>
   running None (0 + total_wait [(1, RequestException), (2, Response 503 empty_config)]) \<and>
   config_fetch_loop None 0 60 [] [(1, RequestException), (2, Response 503 empty_config)] =
     (Fetch_waiting, 13, 62,
      [Config_request 0, Still_waiting 61, Sleep 1 5, Config_request 6, Still_waiting 62, Sleep 8 5], [])"
proof -
  let ?gets = "[(1, RequestException), (2, Response 503 empty_config)] :: monitor_config replies"
  have h1: "\<forall>(d, resp)\<in>set ?gets. 0 \<le> d \<and> retryable resp"
    by (simp add: retryable_def)
  have h2: "running None (0 + total_wait ?gets)"
    by (simp add: running_def)
  from initial_fetch_retries[OF h1 h2, of 60 "[]"] h1 h2 show ?thesis
    by (simp add: total_wait_def)
qed

section \<open>Properties of the report loop\<close>

lemma tick_exit:
  "handle_report (known_config_version st) resp = Report_exit c \<Longrightarrow>
   tick arg st gets (d, resp) =
     Inl (Exited c, st\<lparr>clock := clock st + d, trace := trace st @ [Report_request (clock st)]\<rparr>)"
  by (simp add: tick_def Let_def)

lemma tick_plain:
  "handle_report (known_config_version st) resp = Report_done k False \<Longrightarrow>
   tick arg st gets (d, resp) =
     Inr (st\<lparr>clock := clock st + d, trace := trace st @ [Report_request (clock st)],
             known_config_version := k\<rparr>, gets)"
  by (simp add: tick_def Let_def)

lemma tick_refresh:
  "handle_report (known_config_version st) resp = Report_done k True \<Longrightarrow>
   tick arg st ((d', g) # gets) (d, resp) =
     Inr (st\<lparr>clock := clock st + d + d',
             trace := trace st @ [Report_request (clock st), Refresh_request (clock st + d)],
             known_config_version := k,
             monitor_config := fst (refresh_config arg (monitor_config st) (interval st) g),
             interval := snd (refresh_config arg (monitor_config st) (interval st) g)\<rparr>, gets)"
  by (simp add: tick_def Let_def split: prod.splits)

lemma tick_refresh_unanswered:
  "handle_report (known_config_version st) resp = Report_done k True \<Longrightarrow>
   tick arg st [] (d, resp) =
     Inl (Waiting, st\<lparr>clock := clock st + d, trace := trace st @ [Report_request (clock st)],
                     known_config_version := k\<rparr>)"
  by (simp add: tick_def Let_def)

lemma handle_report_200:
  "handle_report known (Response 200 data) =
     Report_done (get_configVersion data) (0 \<le> known \<and> get_configVersion data \<noteq> known)"
  by (auto simp: handle_report_def Let_def)

lemma handle_report_401: "handle_report known (Response 401 data) = Report_exit 1"
  by (simp add: handle_report_def)

lemma handle_report_other:
  "resp = RequestException \<or> (\<exists>code data. resp = Response code data \<and> code \<noteq> 200 \<and> code \<noteq> 401) \<Longrightarrow>
   handle_report known resp = Report_done known False"
  by (auto simp: handle_report_def)

lemma handle_report_exit_code:
  "handle_report known resp = Report_exit c \<Longrightarrow> c = 1 \<and> (\<exists>data. resp = Response 401 data)"
  by (cases resp) (auto simp: handle_report_def Let_def split: if_splits)

lemma refresh_config_failed:
  "\<not> (\<exists>new. g = Response 200 new) \<Longrightarrow> refresh_config arg cfg intv g = (cfg, intv)"
  by (cases g) (auto simp: refresh_config_def)

lemma refresh_config_fst:
  "fst (refresh_config arg cfg intv g) =
     (case g of Response code new_config \<Rightarrow>
                  if code = 200 \<and> new_config \<noteq> cfg then new_config else cfg
      | RequestException \<Rightarrow> cfg)"
  by (cases g) (auto simp: refresh_config_def Let_def)

lemma tick_trace:
  "trace (after_tick (tick arg st gets p)) = trace st @ [Report_request (clock st)] \<or>
   trace (after_tick (tick arg st gets p)) =
     trace st @ [Report_request (clock st), Refresh_request (clock st + fst p)]"
  by (auto simp: tick_def after_tick_def Let_def split: report_result.splits list.splits prod.splits)

lemma report_loop_stopped:
  "\<not> running sg (clock st) \<Longrightarrow> report_loop sg arg st gets posts = (Returned, st)"
  by (cases posts) simp_all

lemma report_loop_trace_before:
  "report_loop (Some t) arg st gets posts = (out, st') \<Longrightarrow>
     \<forall>e\<in>set (trace st). started_before t e \<Longrightarrow> \<forall>e\<in>set (trace st'). started_before t e"
proof (induction posts arbitrary: st gets)
  case Nil
  then show ?case by (auto split: if_splits)
next
  case (Cons p posts)
  show ?case
  proof (cases "running (Some t) (clock st)")
    case False
    with Cons.prems show ?thesis by (simp add: report_loop_stopped)
  next
    case True
    then have clk: "clock st < t" by (simp add: running_def)
    have tr: "\<forall>e\<in>set (trace (after_tick (tick arg st gets p))). started_before t e"
      using tick_trace[of arg st gets p] Cons.prems(2) clk by auto
    show ?thesis
    proof (cases "tick arg st gets p")
      case (Inl r)
      with True Cons.prems(1) have "r = (out, st')" by simp
      with Inl tr show ?thesis by (simp add: after_tick_def)
    next
      case (Inr r)
      obtain st1 gets1 where r: "r = (st1, gets1)" by (cases r)
      from Inr r tr have tr1: "\<forall>e\<in>set (trace st1). started_before t e"
        by (simp add: after_tick_def)
      show ?thesis
      proof (cases "interval st1 < 0")
        case True
        with \<open>running (Some t) (clock st)\<close> Inr r Cons.prems(1) have "st' = st1" by simp
        with tr1 show ?thesis by simp
      next
        case False
        let ?st2 = "st1\<lparr>clock := clock st1 + real_of_int (interval st1),
                        trace := trace st1 @ [Sleep (clock st1) (real_of_int (interval st1))]\<rparr>"
        from False \<open>running (Some t) (clock st)\<close> Inr r Cons.prems(1)
        have "report_loop (Some t) arg ?st2 gets1 posts = (out, st')" by simp
        moreover have "\<forall>e\<in>set (trace ?st2). started_before t e"
          using tr1 by simp
        ultimately show ?thesis by (rule Cons.IH)
      qed
    qed
  qed
qed

lemma main_trace_before:
  assumes "main (Some t) arg t0 gets posts = (out, clk, tr)"
  shows "\<forall>e\<in>set tr. started_before t e"
proof -
  obtain res clk1 rc1 tr1 gets1 where
    f: "config_fetch_loop (Some t) t0 0 [] gets = (res, clk1, rc1, tr1, gets1)"
    by (metis prod_cases5)
  have tr1: "\<forall>e\<in>set tr1. started_before t e"
    using fetch_loop_trace_before[OF f] by simp
  show ?thesis
  proof (cases res)
    case (Fetched cfg)
    show ?thesis
    proof (cases "running (Some t) clk1")
      case False
      with assms f Fetched tr1 show ?thesis by (simp add: main_def)
    next
      case True
      let ?st = "\<lparr>monitor_config = cfg,
                  interval = (case arg of
                                Some i \<Rightarrow> if i \<noteq> 0 then i else get_reportIntervalSec cfg
                              | None \<Rightarrow> get_reportIntervalSec cfg),
                  known_config_version = - 1, clock = clk1, trace = tr1\<rparr>"
      obtain out' st' where l: "report_loop (Some t) arg ?st gets1 posts = (out', st')"
        by (cases "report_loop (Some t) arg ?st gets1 posts")
      have "\<forall>e\<in>set (trace st'). started_before t e"
        using report_loop_trace_before[OF l] tr1 by simp
      moreover have "tr = trace st'"
        using assms f Fetched True l by (simp add: main_def)
      ultimately show ?thesis by simp
    qed
  qed (use assms f tr1 in \<open>simp_all add: main_def\<close>)
qed

lemma report_loop_same_version:
  "report_loop sg arg st gets posts = (out, st') \<Longrightarrow>
   same_version (known_config_version st) posts \<Longrightarrow>
     monitor_config st' = monitor_config st \<and> interval st' = interval st \<and>
     known_config_version st' = known_config_version st \<and>
     filter is_refresh (trace st') = filter is_refresh (trace st)"
proof (induction posts arbitrary: st gets)
  case Nil
  then show ?case by (auto split: if_splits)
next
  case (Cons p posts)
  obtain d resp where p: "p = (d, resp)" by (cases p)
  show ?case
  proof (cases "running sg (clock st)")
    case False
    with Cons.prems show ?thesis by (simp add: report_loop_stopped)
  next
    case True
    have rest: "same_version (known_config_version st) posts"
      using Cons.prems(2) by (simp add: same_version_def)
    show ?thesis
    proof (cases "handle_report (known_config_version st) resp")
      case (Report_exit c)
      from tick_exit[OF this] True Cons.prems(1) p show ?thesis
        by auto
    next
      case (Report_done k need)
      have kn: "k = known_config_version st \<and> \<not> need"
      proof (cases resp)
        case RequestException
        with Report_done show ?thesis by (simp add: handle_report_def)
      next
        case (Response code data)
        show ?thesis
        proof (cases "code = 200")
          case True
          with Response Cons.prems(2) p have "get_configVersion data = known_config_version st"
            by (simp add: same_version_def)
          with True Response Report_done show ?thesis
            by (auto simp: handle_report_200)
        next
          case False
          with Response Report_done show ?thesis
            by (auto simp: handle_report_def split: if_splits)
        qed
      qed
      let ?st1 = "st\<lparr>clock := clock st + d, trace := trace st @ [Report_request (clock st)],
                     known_config_version := k\<rparr>"
      from kn Report_done have t: "tick arg st gets (d, resp) = Inr (?st1, gets)"
        by (simp add: tick_plain)
      show ?thesis
      proof (cases "interval st < 0")
        case True
        with t \<open>running sg (clock st)\<close> Cons.prems(1) p kn show ?thesis
          by auto
      next
        case False
        let ?st2 = "?st1\<lparr>clock := clock ?st1 + real_of_int (interval ?st1),
                        trace := trace ?st1 @ [Sleep (clock ?st1) (real_of_int (interval ?st1))]\<rparr>"
        from False t \<open>running sg (clock st)\<close> Cons.prems(1) p
        have l: "report_loop sg arg ?st2 gets posts = (out, st')" by simp
        have "same_version (known_config_version ?st2) posts"
          using rest kn by simp
        from Cons.IH[OF l this] kn show ?thesis
          by simp
      qed
    qed
  qed
qed

text \<open>
  Claim C4 as stated fails: the loop tells the first successful report by
  \<^verbatim>\<open>known_config_version < 0\<close>. When the first report returns the version \<open>- 1\<close>
  and the second returns \<open>5\<close>, no refresh request follows the second report although
  the version differs from the recorded one and a config reply is at hand.
\<close>

theorem negative_version_counterexample:
  "main None None 0
      [(1, Response 200 busy_config), (1, Response 200 empty_config)]
      [(1, Response 200 (Some (- 1))), (1, Response 200 (Some 5))] =
     (Waiting, 23,
      [Config_request 0, Report_request 1, Sleep 2 10, Report_request 12, Sleep 13 10])"
  by (simp add: main_def running_def tick_def handle_report_def get_configVersion_def
      get_reportIntervalSec_def busy_config_def Let_def)

text \<open>
  Claim C4, amended. Provided the versions that the server reports are not negative:
  a successful report records the returned version, and the pass sends a refresh
  request exactly when a version was recorded before and the returned one differs from
  it; on the first successful report nothing but the recording happens. A report that
  fails, or returns a status other than 200 and 401, changes nothing and sends no
  refresh request.
\<close>

theorem refresh_on_version_change:
  assumes "known_config_version st = sentinel recorded"
    and "case recorded of None \<Rightarrow> True | Some k \<Rightarrow> 0 \<le> k"
    and "0 \<le> get_configVersion data"
  shows "handle_report (known_config_version st) (Response 200 data) =
           Report_done (get_configVersion data)
             (recorded \<noteq> None \<and> recorded \<noteq> Some (get_configVersion data)) \<and>
         (\<exists>st'. tick arg st ((d', g) # gets) (d, Response 200 data) =
                  Inr (st', if recorded \<noteq> None \<and> recorded \<noteq> Some (get_configVersion data)
                            then gets else (d', g) # gets) \<and>
                known_config_version st' = sentinel (Some (get_configVersion data)) \<and>
                trace st' = trace st @ [Report_request (clock st)]
                  @ (if recorded \<noteq> None \<and> recorded \<noteq> Some (get_configVersion data)
                     then [Refresh_request (clock st + d)] else [])) \<and>
         (\<forall>resp. resp = RequestException \<or>
                 (\<exists>code body. resp = Response code body \<and> code \<noteq> 200 \<and> code \<noteq> 401) \<longrightarrow>
            tick arg st gets (d, resp) =
              Inr (st\<lparr>clock := clock st + d, trace := trace st @ [Report_request (clock st)]\<rparr>,
                   gets))"
proof -
  let ?v = "get_configVersion data"
  let ?need = "recorded \<noteq> None \<and> recorded \<noteq> Some ?v"
  have need: "(0 \<le> known_config_version st \<and> ?v \<noteq> known_config_version st) = ?need"
    using assms by (cases recorded) (auto simp: sentinel_def)
  have h: "handle_report (known_config_version st) (Response 200 data) = Report_done ?v ?need"
    unfolding handle_report_200 need ..
  have t: "\<exists>st'. tick arg st ((d', g) # gets) (d, Response 200 data) =
                  Inr (st', if ?need then gets else (d', g) # gets) \<and>
                known_config_version st' = sentinel (Some ?v) \<and>
                trace st' = trace st @ [Report_request (clock st)]
                  @ (if ?need then [Refresh_request (clock st + d)] else [])"
  proof (cases ?need)
    case True
    with h have "handle_report (known_config_version st) (Response 200 data) = Report_done ?v True"
      by simp
    from tick_refresh[OF this, of arg d' g gets d] True show ?thesis
      by (simp add: sentinel_def)
  next
    case False
    with h have "handle_report (known_config_version st) (Response 200 data) = Report_done ?v False"
      by simp
    from tick_plain[OF this, of arg "(d', g) # gets" d] False show ?thesis
      by (simp add: sentinel_def)
  qed
  have o: "tick arg st gets (d, resp) =
              Inr (st\<lparr>clock := clock st + d, trace := trace st @ [Report_request (clock st)]\<rparr>,
                   gets)"
    if "resp = RequestException \<or>
        (\<exists>code body. resp = Response code body \<and> code \<noteq> 200 \<and> code \<noteq> 401)" for resp
    using tick_plain[OF handle_report_other[OF that, of "known_config_version st"]] by simp
  from h t o show ?thesis by blast
qed

theorem refresh_on_version_change_witness:
  "known_config_version (fresh_agent\<lparr>known_config_version := 1\<rparr>) = sentinel (Some 1) \<and>
   handle_report 1 (Response 200 (Some 2)) = Report_done 2 True \<and>
   handle_report (- 1) (Response 200 (Some 1)) = Report_done 1 False \<and>
   (\<exists>st'. tick None (fresh_agent\<lparr>known_config_version := 1\<rparr>) [(1, RequestException)]
             (1, Response 200 (Some 2)) = Inr (st', []) \<and>
           known_config_version st' = 2 \<and>
           trace st' = [Config_request 0, Report_request 1, Refresh_request 2])"
proof -
  let ?st = "fresh_agent\<lparr>known_config_version := 1\<rparr>"
  have h1: "known_config_version ?st = sentinel (Some 1)"
    by (simp add: sentinel_def)
  have h2: "case Some (1::int) of None \<Rightarrow> True | Some k \<Rightarrow> 0 \<le> k" by simp
  have h3: "0 \<le> get_configVersion (Some 2)" by (simp add: get_configVersion_def)
  have h1': "known_config_version fresh_agent = sentinel None"
    by (simp add: sentinel_def fresh_agent_def)
  have h2': "case (None::int option) of None \<Rightarrow> True | Some k \<Rightarrow> 0 \<le> k" by simp
  have h3': "0 \<le> get_configVersion (Some 1)" by (simp add: get_configVersion_def)
  from refresh_on_version_change[OF h1 h2 h3, of None 1 RequestException "[]" 1]
    refresh_on_version_change[OF h1' h2' h3', of None 1 RequestException "[]" 1] h1
  show ?thesis
    by (simp add: get_configVersion_def fresh_agent_def sentinel_def)
qed

text \<open>
  Claim C5. A pass whose report asks for a refresh sends exactly one refresh request
  and uses exactly one config reply; the config becomes the fetched one when the reply
  is a 200 whose config differs from the current one, and stays as it is otherwise;
  whatever the reply is (a transport failure or any status), the pass does not end the
  run: the loop goes on to its sleep and the next pass.
\<close>

theorem refresh_single_attempt:
  assumes "handle_report (known_config_version st) resp = Report_done k True"
  shows "\<exists>st'. tick arg st ((d', g) # gets) (d, resp) = Inr (st', gets) \<and>
           trace st' = trace st @ [Report_request (clock st), Refresh_request (clock st + d)] \<and>
           monitor_config st' =
             (case g of
                Response code new_config \<Rightarrow>
                  if code = 200 \<and> new_config \<noteq> monitor_config st then new_config
                  else monitor_config st
              | RequestException \<Rightarrow> monitor_config st) \<and>
           (\<not> (\<exists>new_config. g = Response 200 new_config) \<longrightarrow> interval st' = interval st) \<and>
           (running sg (clock st) \<and> 0 \<le> interval st' \<longrightarrow>
              report_loop sg arg st ((d', g) # gets) ((d, resp) # posts) =
              report_loop sg arg
                (st'\<lparr>clock := clock st' + real_of_int (interval st'),
                     trace := trace st' @ [Sleep (clock st') (real_of_int (interval st'))]\<rparr>)
                gets posts)"
proof -
  let ?st' = "st\<lparr>clock := clock st + d + d',
             trace := trace st @ [Report_request (clock st), Refresh_request (clock st + d)],
             known_config_version := k,
             monitor_config := fst (refresh_config arg (monitor_config st) (interval st) g),
             interval := snd (refresh_config arg (monitor_config st) (interval st) g)\<rparr>"
  have t: "tick arg st ((d', g) # gets) (d, resp) = Inr (?st', gets)"
    using assms by (rule tick_refresh)
  have i: "interval ?st' = interval st" if "\<not> (\<exists>new_config. g = Response 200 new_config)"
    using refresh_config_failed[OF that, of arg "monitor_config st" "interval st"] by simp
  have l: "report_loop sg arg st ((d', g) # gets) ((d, resp) # posts) =
              report_loop sg arg
                (?st'\<lparr>clock := clock ?st' + real_of_int (interval ?st'),
                     trace := trace ?st' @ [Sleep (clock ?st') (real_of_int (interval ?st'))]\<rparr>)
                gets posts"
    if "running sg (clock st)" "0 \<le> interval ?st'"
    using that t by simp
  show ?thesis
    apply (rule exI[of _ ?st'])
    using t i l by (simp add: refresh_config_fst)
qed

theorem refresh_single_attempt_witness:
  "handle_report 1 (Response 200 (Some 2)) = Report_done 2 True \<and>
   (\<exists>st'. tick None (fresh_agent\<lparr>known_config_version := 1\<rparr>)
             [(1, Response 401 empty_config), (1, Response 200 empty_config)]
             (1, Response 200 (Some 2)) = Inr (st', [(1, Response 200 empty_config)]) \<and>
           trace st' = [Config_request 0, Report_request 1, Refresh_request 2] \<and>
           monitor_config st' = busy_config \<and> interval st' = 10)"
proof -
  let ?st = "fresh_agent\<lparr>known_config_version := 1\<rparr>"
  have h: "handle_report (known_config_version ?st) (Response 200 (Some 2)) = Report_done 2 True"
    by (simp add: handle_report_def get_configVersion_def)
  from refresh_single_attempt[OF h, of None 1 "Response 401 empty_config"
      "[(1, Response 200 empty_config)]" 1 None "[]"]
  obtain st' where
    t: "tick None ?st [(1, Response 401 empty_config), (1, Response 200 empty_config)]
          (1, Response 200 (Some 2)) = Inr (st', [(1, Response 200 empty_config)])"
    and tr: "trace st' = trace ?st @ [Report_request (clock ?st), Refresh_request (clock ?st + 1)]"
    and c: "monitor_config st' = monitor_config ?st"
    and i: "interval st' = interval ?st"
    by auto
  have "trace st' = [Config_request 0, Report_request 1, Refresh_request 2]"
    using tr by (simp add: fresh_agent_def)
  moreover have "monitor_config st' = busy_config" "interval st' = 10"
    using c i by (simp_all add: fresh_agent_def)
  moreover have "handle_report 1 (Response 200 (Some 2)) = Report_done 2 True"
    using h by simp
  ultimately show ?thesis
    using t by blast
qed

section \<open>Token rejection, cancellation, and a failed refresh\<close>

text \<open>
  Claim C6 as stated fails for the config fetch of a refresh: the second config reply
  below is a 401 to the refresh request sent at time 13, and the run neither exits nor
  stops; it sleeps and sends the next report at time 24.
\<close>

theorem refresh_401_counterexample:
  "main None None 0
      [(1, Response 200 busy_config), (1, Response 401 empty_config)]
      [(1, Response 200 (Some 1)), (1, Response 200 (Some 2)), (1, Response 200 (Some 2))] =
     (Waiting, 35,
      [Config_request 0, Report_request 1, Sleep 2 10, Report_request 12,
       Refresh_request 13, Sleep 14 10, Report_request 24, Sleep 25 10])"
  by (simp add: main_def running_def tick_def handle_report_def get_configVersion_def
      get_reportIntervalSec_def refresh_config_def busy_config_def empty_config_def Let_def)

text \<open>
  Claim C6, amended. A 401 to a request of the initial config fetch, after any number
  of retried attempts, and a 401 to a report end the run with exit status 1, with no
  further request or sleep. A 401 to the config request of a refresh is ignored: config
  and interval stay as they are.
\<close>

theorem token_rejected_is_terminal:
  assumes "\<forall>(d, resp)\<in>set pre. 0 \<le> d \<and> retryable resp"
    and "running sg (t0 + total_wait pre)"
    and "running sg (clock st)"
  shows "main sg arg t0 (pre @ (d, Response 401 body) # gets) posts =
           (Exited 1, t0 + total_wait pre + d,
            retry_events t0 0 pre @ [Config_request (t0 + total_wait pre)]) \<and>
         report_loop sg arg st gets' ((d', Response 401 data) # posts') =
           (Exited 1, st\<lparr>clock := clock st + d', trace := trace st @ [Report_request (clock st)]\<rparr>) \<and>
         refresh_config arg cfg intv (Response 401 body) = (cfg, intv)"
proof -
  have "config_fetch_loop sg t0 0 [] (pre @ (d, Response 401 body) # gets) =
        config_fetch_loop sg (t0 + total_wait pre) (0 + length pre) ([] @ retry_events t0 0 pre)
          ((d, Response 401 body) # gets)"
    using assms(1,2) by (rule fetch_retry_prefix)
  also have "\<dots> = (Fetch_exit 1, t0 + total_wait pre + d, length pre,
                    retry_events t0 0 pre @ [Config_request (t0 + total_wait pre)], gets)"
    using assms(2) by simp
  finally have 1: "main sg arg t0 (pre @ (d, Response 401 body) # gets) posts =
           (Exited 1, t0 + total_wait pre + d,
            retry_events t0 0 pre @ [Config_request (t0 + total_wait pre)])"
    by (simp add: main_def)
  have 2: "report_loop sg arg st gets' ((d', Response 401 data) # posts') =
           (Exited 1, st\<lparr>clock := clock st + d', trace := trace st @ [Report_request (clock st)]\<rparr>)"
    using assms(3) tick_exit[OF handle_report_401] by simp
  have 3: "refresh_config arg cfg intv (Response 401 body) = (cfg, intv)"
    by (simp add: refresh_config_def)
  from 1 2 3 show ?thesis by blast
qed

theorem token_rejected_is_terminal_witness:
  "0 \<le> (1::real) \<and> retryable (Response 503 empty_config) \<and>
   running None (0 + total_wait [(1, Response 503 empty_config)]) \<and>
   running None (clock fresh_agent) \<and>
   main None None 0 [(1, Response 503 empty_config), (2, Response 401 empty_config)] [] =
     (Exited 1, 8, [Config_request 0, Sleep 1 5, Config_request 6]) \<and>
   report_loop None None fresh_agent [] [(1, Response 401 None)] =
     (Exited 1, fresh_agent\<lparr>clock := 2, trace := [Config_request 0, Report_request 1]\<rparr>)"
proof -
  let ?pre = "[(1, Response 503 empty_config)] :: monitor_config replies"
  have h1: "\<forall>(d, resp)\<in>set ?pre. 0 \<le> d \<and> retryable resp"
    by (simp add: retryable_def)
  have h2: "running None (0 + total_wait ?pre)" by (simp add: running_def)
  have h3: "running None (clock fresh_agent)" by (simp add: running_def)
  from token_rejected_is_terminal[OF h1 h2 h3, where d = 2 and body = empty_config
      and gets = "[]" and posts = "[]" and arg = None and data = None and d' = 1 and gets' = "[]"
      and posts' = "[]"]
    h1 h2 h3
  show ?thesis
    by (simp add: total_wait_def fresh_agent_def)
qed

text \<open>
  Claim C8 as stated fails: the signal handler only clears \<^verbatim>\<open>running\<close>, and the flag
  is read at the top of each loop only. In the first run the signal is delivered at
  time 1, as the retry wait of 5 starts, and the run stops at time 6; in the second it is
  delivered at time 2, as the sleep of the report interval 10 starts, and the run stops
  at time 12.
\<close>

theorem uninterrupted_sleep_counterexample:
  "main (Some 1) None 0 [(1, RequestException), (1, Response 200 busy_config)] [] =
     (Returned, 6, [Config_request 0, Sleep 1 5]) \<and>
   main (Some 2) None 0 [(1, Response 200 busy_config)]
      [(1, Response 200 (Some 1)), (1, Response 200 (Some 1))] =
     (Returned, 12, [Config_request 0, Report_request 1, Sleep 2 10])"
  by (simp add: main_def running_def tick_def handle_report_def get_configVersion_def
      get_reportIntervalSec_def busy_config_def Let_def)

text \<open>
  Claim C8, amended. Cancellation takes effect at the top of the two loops: every
  request of the initial fetch and every report of a run starts before the signal is
  delivered, and a loop whose condition is read after the delivery stops at once. The
  waits are not interruptible: a retried attempt that has started goes on through its
  call and its sleep of 5 to the next reading of the flag, whenever the signal comes.
\<close>

theorem cancellation_at_loop_top:
  assumes "main (Some t) arg t0 gets posts = (out, clk, tr)"
  shows "(\<forall>e\<in>set tr. started_before t e) \<and>
         (\<forall>clk' rc tr' gets'. \<not> running (Some t) clk' \<longrightarrow>
            config_fetch_loop (Some t) clk' rc tr' gets' = (Fetch_stopped, clk', rc, tr', gets')) \<and>
         (\<forall>st gets' posts'. \<not> running (Some t) (clock st) \<longrightarrow>
            report_loop (Some t) arg st gets' posts' = (Returned, st)) \<and>
         (\<forall>clk' rc tr' d resp gets'. running (Some t) clk' \<and> retryable resp \<longrightarrow>
            config_fetch_loop (Some t) clk' rc tr' ((d, resp) # gets') =
            config_fetch_loop (Some t) (clk' + d + 5) (rc + 1)
              (tr' @ [Config_request clk']
                   @ (if rc + 1 > 60 then [Still_waiting (rc + 1)] else [])
                   @ [Sleep (clk' + d) 5]) gets')"
proof -
  have 1: "\<forall>e\<in>set tr. started_before t e"
    using assms by (rule main_trace_before)
  have 2: "config_fetch_loop (Some t) clk' rc tr' gets' = (Fetch_stopped, clk', rc, tr', gets')"
    if "\<not> running (Some t) clk'" for clk' rc tr' and gets' :: "monitor_config replies"
    using that by (cases gets') auto
  have 3: "report_loop (Some t) arg st gets' posts' = (Returned, st)"
    if "\<not> running (Some t) (clock st)" for st gets' posts'
    using that by (rule report_loop_stopped)
  have 4: "config_fetch_loop (Some t) clk' rc tr' ((d, resp) # gets') =
            config_fetch_loop (Some t) (clk' + d + 5) (rc + 1)
              (tr' @ [Config_request clk']
                   @ (if rc + 1 > 60 then [Still_waiting (rc + 1)] else [])
                   @ [Sleep (clk' + d) 5]) gets'"
    if "running (Some t) clk'" "retryable resp" for clk' rc tr' d resp gets'
    using that by (cases resp) (simp_all add: retryable_def)
  from 1 2 3 4 show ?thesis by blast
qed

theorem cancellation_at_loop_top_witness:
  "main (Some 13) None 0 [(1, Response 200 busy_config)]
      [(1, Response 200 (Some 1)), (1, Response 200 (Some 1)), (1, Response 200 (Some 1))] =
     (Returned, 23, [Config_request 0, Report_request 1, Sleep 2 10, Report_request 12, Sleep 13 10]) \<and>
   list_all (started_before 13)
     [Config_request 0, Report_request 1, Sleep 2 10, Report_request 12, Sleep 13 10]"
proof -
  have m: "main (Some 13) None 0 [(1, Response 200 busy_config)]
      [(1, Response 200 (Some 1)), (1, Response 200 (Some 1)), (1, Response 200 (Some 1))] =
     (Returned, 23, [Config_request 0, Report_request 1, Sleep 2 10, Report_request 12, Sleep 13 10])"
    by (simp add: main_def running_def tick_def handle_report_def get_configVersion_def
      get_reportIntervalSec_def busy_config_def Let_def)
  from cancellation_at_loop_top[OF m] m show ?thesis
    by (simp add: list_all_iff)
qed

text \<open>
  Claim C10. When a successful report returns a version that differs from the recorded
  one, the returned version is recorded before the refresh request gets any reply. If
  that refresh fails or returns a status other than 200, then as long as the successful
  reports keep returning that version, the run sends no further refresh request and
  ends with the config and interval it had.
\<close>

theorem stale_config_after_failed_refresh:
  assumes "0 \<le> known_config_version st"
    and "get_configVersion data \<noteq> known_config_version st"
    and "\<not> (\<exists>new_config. g = Response 200 new_config)"
    and "same_version (get_configVersion data) posts"
    and "running sg (clock st)"
    and "report_loop sg arg st ((d', g) # gets) ((d, Response 200 data) # posts) = (out, st')"
  shows "(\<exists>st1. tick arg st [] (d, Response 200 data) = Inl (Waiting, st1) \<and>
                known_config_version st1 = get_configVersion data) \<and>
         (\<exists>st1. tick arg st ((d', g) # gets) (d, Response 200 data) = Inr (st1, gets) \<and>
                known_config_version st1 = get_configVersion data \<and>
                monitor_config st1 = monitor_config st \<and>
                trace st1 = trace st @ [Report_request (clock st), Refresh_request (clock st + d)]) \<and>
         monitor_config st' = monitor_config st \<and>
         interval st' = interval st \<and>
         known_config_version st' = get_configVersion data \<and>
         filter is_refresh (trace st') =
           filter is_refresh (trace st) @ [Refresh_request (clock st + d)]"
proof -
  let ?v = "get_configVersion data"
  have h: "handle_report (known_config_version st) (Response 200 data) = Report_done ?v True"
    using assms(1,2) by (simp add: handle_report_200)
  have r: "refresh_config arg (monitor_config st) (interval st) g = (monitor_config st, interval st)"
    using assms(3) by (rule refresh_config_failed)
  let ?st1 = "st\<lparr>clock := clock st + d + d',
             trace := trace st @ [Report_request (clock st), Refresh_request (clock st + d)],
             known_config_version := ?v\<rparr>"
  have t: "tick arg st ((d', g) # gets) (d, Response 200 data) = Inr (?st1, gets)"
    using tick_refresh[OF h, of arg d' g gets d] r by simp
  have 1: "\<exists>st1. tick arg st [] (d, Response 200 data) = Inl (Waiting, st1) \<and>
                known_config_version st1 = ?v"
    using tick_refresh_unanswered[OF h, of arg d] by simp
  have 2: "\<exists>st1. tick arg st ((d', g) # gets) (d, Response 200 data) = Inr (st1, gets) \<and>
                known_config_version st1 = ?v \<and> monitor_config st1 = monitor_config st \<and>
                trace st1 = trace st @ [Report_request (clock st), Refresh_request (clock st + d)]"
    using t by simp
  have 3: "monitor_config st' = monitor_config st \<and> interval st' = interval st \<and>
         known_config_version st' = ?v \<and>
         filter is_refresh (trace st') =
           filter is_refresh (trace st) @ [Refresh_request (clock st + d)]"
  proof (cases "interval st < 0")
    case True
    with t assms(5,6) have "st' = ?st1" by simp
    then show ?thesis by simp
  next
    case False
    let ?st2 = "?st1\<lparr>clock := clock ?st1 + real_of_int (interval ?st1),
                      trace := trace ?st1 @ [Sleep (clock ?st1) (real_of_int (interval ?st1))]\<rparr>"
    from False t assms(5,6) have l: "report_loop sg arg ?st2 gets posts = (out, st')"
      by simp
    have "same_version (known_config_version ?st2) posts"
      using assms(4) by simp
    from report_loop_same_version[OF l this] show ?thesis
      by simp
  qed
  from 1 2 3 show ?thesis by blast
qed

theorem stale_config_after_failed_refresh_witness:
  "0 \<le> known_config_version (fresh_agent\<lparr>known_config_version := 1\<rparr>) \<and>
   get_configVersion (Some 2) \<noteq> known_config_version (fresh_agent\<lparr>known_config_version := 1\<rparr>) \<and>
   same_version (get_configVersion (Some 2))
      [(1, Response 200 (Some 2)), (1, Response 500 None), (1, RequestException)] \<and>
   report_loop None None (fresh_agent\<lparr>known_config_version := 1\<rparr>)
      [(1, RequestException), (1, Response 200 empty_config)]
      [(1, Response 200 (Some 2)), (1, Response 200 (Some 2)), (1, Response 500 None),
       (1, RequestException)] =
     (Waiting,
      \<lparr>monitor_config = busy_config, interval = 10, known_config_version = 2, clock = 46,
       trace = [Config_request 0, Report_request 1, Refresh_request 2, Sleep 3 10,
                Report_request 13, Sleep 14 10, Report_request 24, Sleep 25 10,
                Report_request 35, Sleep 36 10]\<rparr>) \<and>
   filter is_refresh
     [Config_request 0, Report_request 1, Refresh_request 2, Sleep 3 10,
      Report_request 13, Sleep 14 10, Report_request 24, Sleep 25 10,
      Report_request 35, Sleep 36 10] = [Refresh_request 2]"
proof -
  let ?st = "fresh_agent\<lparr>known_config_version := 1\<rparr>"
  let ?posts = "[(1, Response 200 (Some 2)), (1, Response 500 None), (1, RequestException)]
                  :: int option replies"
  have h1: "0 \<le> known_config_version ?st" by simp
  have h2: "get_configVersion (Some 2) \<noteq> known_config_version ?st"
    by (simp add: get_configVersion_def)
  have h3: "\<not> (\<exists>new_config. (RequestException :: monitor_config response) = Response 200 new_config)"
    by simp
  have h4: "same_version (get_configVersion (Some 2)) ?posts"
    by (simp add: same_version_def get_configVersion_def)
  have h5: "running None (clock ?st)" by (simp add: running_def)
  have h6: "report_loop None None ?st
      [(1, RequestException), (1, Response 200 empty_config)]
      ((1, Response 200 (Some 2)) # ?posts) =
     (Waiting,
      \<lparr>monitor_config = busy_config, interval = 10, known_config_version = 2, clock = 46,
       trace = [Config_request 0, Report_request 1, Refresh_request 2, Sleep 3 10,
                Report_request 13, Sleep 14 10, Report_request 24, Sleep 25 10,
                Report_request 35, Sleep 36 10]\<rparr>)"
    by (simp add: fresh_agent_def running_def tick_def handle_report_def get_configVersion_def
        refresh_config_def Let_def)
  from stale_config_after_failed_refresh[OF h1 h2 h3 h4 h5 h6] h1 h2 h4 h6
  show ?thesis
    by simp
qed

section \<open>Properties of the local state file\<close>

text \<open>
  Claim C9 as stated fails: the save writes the target in place. A reader that loads the
  state file of a registered node after the save has opened it, and before the text is
  written, gets neither the old state nor the new one, but an empty file that
  \<^verbatim>\<open>json.load\<close> rejects.
\<close>

theorem save_in_place_counterexample:
  "load_local_config ''config.json'' registered_files =
     Inr \<lparr>token = Some ''abc'', server = Some ''https://x''\<rparr> \<and>
   load_local_config ''config.json''
     (hd (save_local_config_states ''config.json''
            \<lparr>token = Some ''xyz'', server = Some ''https://x''\<rparr> registered_files)) =
     Inl JSONDecodeError"
  by (simp add: load_local_config_def save_local_config_states_def registered_files_def Let_def)

text \<open>
  Claim C9, amended. The save overwrites the state file in place: the file is first
  empty and then holds the saved state, no other path (no temporary file) is touched,
  and a load after the save has returned gives the saved state.
\<close>

theorem save_then_load:
  "load_local_config path (save_local_config path data fs) = Inr data \<and>
   map (\<lambda>s. s path) (save_local_config_states path data fs) =
     [Some Truncated, Some (Json_document data)] \<and>
   (\<forall>s\<in>set (save_local_config_states path data fs). \<forall>p. p \<noteq> path \<longrightarrow> s p = fs p)"
  by (simp add: load_local_config_def save_local_config_def save_local_config_states_def Let_def)

theorem save_then_load_witness:
  "load_local_config ''config.json''
     (save_local_config ''config.json'' \<lparr>token = Some ''xyz'', server = Some ''https://x''\<rparr>
        registered_files) = Inr \<lparr>token = Some ''xyz'', server = Some ''https://x''\<rparr> \<and>
   save_local_config ''config.json'' \<lparr>token = Some ''xyz'', server = Some ''https://x''\<rparr>
        registered_files ''config.json.tmp'' = None"
proof -
  let ?d = "\<lparr>token = Some ''xyz'', server = Some ''https://x''\<rparr>"
  have "save_local_config ''config.json'' ?d registered_files
          \<in> set (save_local_config_states ''config.json'' ?d registered_files)"
    by (simp add: save_local_config_def save_local_config_states_def Let_def)
  moreover have "''config.json.tmp'' \<noteq> ''config.json''" by simp
  moreover have "registered_files ''config.json.tmp'' = None"
    by (simp add: registered_files_def)
  ultimately show ?thesis
    using save_then_load[of "''config.json''" ?d registered_files] by metis
qed

end
